theory Spec2Isabelle
  imports Complex_Main
begin

section \<open>Numbers, errors and arrays\<close>

text \<open>
  The cavity-flow kernel of the tutorial consists of three Python functions of the
  notebook \<^verbatim>\<open>05.0.A.Breakneck.Introduction.to.CFD\<close> (\<^verbatim>\<open>velocity_term\<close>,
  \<^verbatim>\<open>pressure_poisson\<close>, \<^verbatim>\<open>cavity_flow\<close>) and of the loop-unrolled, jitted variant of
  \<^verbatim>\<open>pressure_poisson\<close> of the exercise notebooks.

  Numbers. The arrays hold 64-bit floats. They are modelled as \<^typ>\<open>real\<close>: arithmetic is
  exact, overflow and underflow are not modelled, and array cells and scalar parameters
  are finite. Rounding is modelled in the one place where it decides the control flow by
  itself: the start value \<^verbatim>\<open>l2_target + 1\<close> of the residual, which from \<open>2^53\<close> on is not
  above \<^verbatim>\<open>l2_target\<close>. The one place where the code produces a non-finite float from
  finite operands is the division of the residual; its results are the type \<open>fval\<close>.

  Errors. Every exception the code can raise is a value of \<open>error\<close>; a function that can
  raise returns \<open>error + 'a\<close>, with \<open>Inl\<close> for the exception.

  Arrays. A two-dimensional array is the list of its rows. A numpy array is rectangular:
  \<open>is_grid ny nx g\<close> says that \<open>g\<close> has shape \<open>(ny, nx)\<close>. An array with no rows is \<open>[]\<close>
  (its column count is not represented and reads as 0).
\<close>

datatype error = IndexError | ValueError | ZeroDivisionError

definition ebind :: "error + 'a \<Rightarrow> ('a \<Rightarrow> error + 'b) \<Rightarrow> error + 'b" where
  "ebind m f = (case m of Inl e \<Rightarrow> Inl e | Inr x \<Rightarrow> f x)"

type_synonym grid = "real list list"

definition ncols :: "grid \<Rightarrow> nat" where
  "ncols g = (case g of [] \<Rightarrow> 0 | r # _ \<Rightarrow> length r)"

definition is_grid :: "nat \<Rightarrow> nat \<Rightarrow> grid \<Rightarrow> bool" where
  "is_grid ny nx g \<longleftrightarrow> length g = ny \<and> list_all (\<lambda>r. length r = nx) g"

definition same_shape :: "grid \<Rightarrow> grid \<Rightarrow> bool" where
  "same_shape a c \<longleftrightarrow> map length a = map length c"

definition zeros :: "nat \<Rightarrow> nat \<Rightarrow> grid" where
  \<comment> \<open>\<^verbatim>\<open>numpy.zeros((ny, nx))\<close>\<close>
  "zeros ny nx = replicate ny (replicate nx 0)"

subsection \<open>Integer indices and slices\<close>

definition py_index :: "nat \<Rightarrow> int \<Rightarrow> error + nat" where
  \<comment> \<open>An integer index into an axis of length \<open>n\<close>: negative indices count from the end,
      anything else out of range raises IndexError.\<close>
  "py_index n i =
     (if 0 \<le> i \<and> i < int n then Inr (nat i)
      else if - int n \<le> i \<and> i < 0 then Inr (nat (int n + i))
      else Inl IndexError)"

type_synonym pyslice = "int option \<times> int option"

definition clamp_idx :: "nat \<Rightarrow> int \<Rightarrow> nat" where
  \<comment> \<open>A slice bound is clamped into \<open>0..n\<close>; a slice never raises.\<close>
  "clamp_idx n i = (if i < 0 then nat (max 0 (int n + i)) else min n (nat i))"

definition slice_start :: "nat \<Rightarrow> pyslice \<Rightarrow> nat" where
  "slice_start n sl = (case fst sl of None \<Rightarrow> 0 | Some i \<Rightarrow> clamp_idx n i)"

definition slice_stop :: "nat \<Rightarrow> pyslice \<Rightarrow> nat" where
  "slice_stop n sl = (case snd sl of None \<Rightarrow> n | Some i \<Rightarrow> clamp_idx n i)"

definition py_slice :: "pyslice \<Rightarrow> 'a list \<Rightarrow> 'a list" where
  \<comment> \<open>\<^verbatim>\<open>xs[start:stop]\<close>\<close>
  "py_slice sl xs =
     (let n = length xs; s = slice_start n sl; e = slice_stop n sl
      in take (e - s) (drop s xs))"

definition sl_inner :: pyslice where
  \<comment> \<open>\<^verbatim>\<open>1:-1\<close>\<close>
  "sl_inner = (Some 1, Some (- 1))"

definition sl_from2 :: pyslice where
  \<comment> \<open>\<^verbatim>\<open>2:\<close>\<close>
  "sl_from2 = (Some 2, None)"

definition sl_upto2 :: pyslice where
  \<comment> \<open>\<^verbatim>\<open>:-2\<close>\<close>
  "sl_upto2 = (None, Some (- 2))"

definition slice2 :: "pyslice \<Rightarrow> pyslice \<Rightarrow> grid \<Rightarrow> grid" where
  \<comment> \<open>\<^verbatim>\<open>g[rs, cs]\<close> for two slices\<close>
  "slice2 rs cs g = map (py_slice cs) (py_slice rs g)"

definition assign_slice :: "pyslice \<Rightarrow> 'a list \<Rightarrow> 'a list \<Rightarrow> 'a list" where
  \<comment> \<open>\<^verbatim>\<open>xs[start:stop] = ys\<close>, for \<open>ys\<close> of the length of the slice\<close>
  "assign_slice sl xs ys =
     (let n = length xs; s = slice_start n sl; e = slice_stop n sl
      in map (\<lambda>i. if s \<le> i \<and> i < e then ys ! (i - s) else xs ! i) [0..<n])"

definition assign_slice2 :: "pyslice \<Rightarrow> pyslice \<Rightarrow> grid \<Rightarrow> grid \<Rightarrow> grid" where
  \<comment> \<open>\<^verbatim>\<open>g[rs, cs] = rhs\<close>, for \<open>rhs\<close> of the shape of the slice\<close>
  "assign_slice2 rs cs g rhs =
     (let n = length g; s = slice_start n rs; e = slice_stop n rs
      in map (\<lambda>i. if s \<le> i \<and> i < e then assign_slice cs (g ! i) (rhs ! (i - s)) else g ! i)
           [0..<n])"

subsection \<open>Elementwise arithmetic\<close>

text \<open>
  The elementwise operators combine operands of one shape. Where the code combines
  slices of different arrays, the function that does so checks \<open>same_shape\<close> first and
  returns ValueError otherwise (numpy raises ValueError on shapes it cannot broadcast;
  broadcasting between unequal shapes is not modelled: all grids of a run have one shape).
\<close>

definition np_add :: "grid \<Rightarrow> grid \<Rightarrow> grid" where
  "np_add a c = map2 (map2 (+)) a c"

definition np_sub :: "grid \<Rightarrow> grid \<Rightarrow> grid" where
  "np_sub a c = map2 (map2 (-)) a c"

definition np_mul :: "grid \<Rightarrow> grid \<Rightarrow> grid" where
  "np_mul a c = map2 (map2 (*)) a c"

definition np_scale :: "real \<Rightarrow> grid \<Rightarrow> grid" where
  \<comment> \<open>scalar \<^verbatim>\<open>*\<close> array\<close>
  "np_scale s a = map (map (\<lambda>x. s * x)) a"

definition np_div_scalar :: "grid \<Rightarrow> real \<Rightarrow> grid" where
  \<comment> \<open>array \<^verbatim>\<open>/\<close> scalar, for a scalar that is not zero\<close>
  "np_div_scalar a s = map (map (\<lambda>x. x / s)) a"

definition np_sq :: "grid \<Rightarrow> grid" where
  \<comment> \<open>array \<^verbatim>\<open>** 2\<close>\<close>
  "np_sq a = map (map (\<lambda>x. x ^ 2)) a"

definition np_sum :: "grid \<Rightarrow> real" where
  "np_sum a = sum_list (map sum_list a)"

subsection \<open>Rows and columns by integer index\<close>

definition get_row :: "grid \<Rightarrow> int \<Rightarrow> error + real list" where
  \<comment> \<open>\<^verbatim>\<open>g[i, :]\<close>\<close>
  "get_row g i = ebind (py_index (length g) i) (\<lambda>k. Inr (g ! k))"

definition set_row :: "grid \<Rightarrow> int \<Rightarrow> real list \<Rightarrow> error + grid" where
  \<comment> \<open>\<^verbatim>\<open>g[i, :] = r\<close>\<close>
  "set_row g i r = ebind (py_index (length g) i) (\<lambda>k. Inr (g[k := r]))"

definition fill_row :: "grid \<Rightarrow> int \<Rightarrow> real \<Rightarrow> error + grid" where
  \<comment> \<open>\<^verbatim>\<open>g[i, :] = c\<close> for a scalar \<open>c\<close>\<close>
  "fill_row g i c = ebind (py_index (length g) i) (\<lambda>k. Inr (g[k := map (\<lambda>_. c) (g ! k)]))"

definition get_col :: "grid \<Rightarrow> int \<Rightarrow> error + real list" where
  \<comment> \<open>\<^verbatim>\<open>g[:, j]\<close>\<close>
  "get_col g j = ebind (py_index (ncols g) j) (\<lambda>k. Inr (map (\<lambda>r. r ! k) g))"

definition set_col :: "grid \<Rightarrow> int \<Rightarrow> real list \<Rightarrow> error + grid" where
  \<comment> \<open>\<^verbatim>\<open>g[:, j] = c\<close>\<close>
  "set_col g j c = ebind (py_index (ncols g) j) (\<lambda>k. Inr (map2 (\<lambda>r x. r[k := x]) g c))"

definition fill_col :: "grid \<Rightarrow> int \<Rightarrow> real \<Rightarrow> error + grid" where
  \<comment> \<open>\<^verbatim>\<open>g[:, j] = c\<close> for a scalar \<open>c\<close>\<close>
  "fill_col g j c = ebind (py_index (ncols g) j) (\<lambda>k. Inr (map (\<lambda>r. r[k := c]) g))"

definition get2 :: "grid \<Rightarrow> int \<Rightarrow> int \<Rightarrow> error + real" where
  \<comment> \<open>\<^verbatim>\<open>g[i, j]\<close>\<close>
  "get2 g i j =
     ebind (py_index (length g) i) (\<lambda>r.
     ebind (py_index (length (g ! r)) j) (\<lambda>c. Inr (g ! r ! c)))"

definition set2 :: "grid \<Rightarrow> int \<Rightarrow> int \<Rightarrow> real \<Rightarrow> error + grid" where
  \<comment> \<open>\<^verbatim>\<open>g[i, j] = x\<close>\<close>
  "set2 g i j x =
     ebind (py_index (length g) i) (\<lambda>r.
     ebind (py_index (length (g ! r)) j) (\<lambda>c. Inr (g[r := (g ! r)[c := x]])))"

fun for_each :: "'i list \<Rightarrow> ('i \<Rightarrow> 's \<Rightarrow> error + 's) \<Rightarrow> 's \<Rightarrow> error + 's" where
  \<comment> \<open>a \<^verbatim>\<open>for\<close> loop over a range: the body updates the state or raises\<close>
  "for_each [] body s = Inr s"
| "for_each (i # is) body s = ebind (body i s) (for_each is body)"

subsection \<open>The float results of the residual\<close>

datatype fval = Fin real | PInf | NInf | NaN

definition np_div :: "real \<Rightarrow> real \<Rightarrow> fval" where
  \<comment> \<open>Division of two numpy float64 scalars: dividing by zero does not raise; it gives
      nan for 0/0 and an infinity otherwise (with a RuntimeWarning).\<close>
  "np_div x y =
     (if y = 0 then (if x = 0 then NaN else if 0 < x then PInf else NInf)
      else Fin (x / y))"

fun np_sqrt :: "fval \<Rightarrow> fval" where
  "np_sqrt (Fin x) = (if x < 0 then NaN else Fin (sqrt x))"
| "np_sqrt PInf = PInf"
| "np_sqrt NInf = NaN"
| "np_sqrt NaN = NaN"

fun f_gt :: "fval \<Rightarrow> real \<Rightarrow> bool" where
  \<comment> \<open>\<^verbatim>\<open>x > t\<close> for a float \<open>x\<close> and a finite \<open>t\<close>: every comparison with nan is False\<close>
  "f_gt (Fin x) t = (t < x)"
| "f_gt PInf t = True"
| "f_gt NInf t = False"
| "f_gt NaN t = False"

definition iter_diff_of :: "grid \<Rightarrow> grid \<Rightarrow> fval" where
  \<comment> \<open>\<^verbatim>\<open>numpy.sqrt(numpy.sum((p - pn)**2)/numpy.sum(pn**2))\<close>, run by the interpreter\<close>
  "iter_diff_of p pn = np_sqrt (np_div (np_sum (np_sq (np_sub p pn))) (np_sum (np_sq pn)))"

definition nb_div :: "real \<Rightarrow> real \<Rightarrow> error + real" where
  \<comment> \<open>Division of two float64 scalars in a function compiled by numba (with its default
      error model): dividing by zero raises ZeroDivisionError.\<close>
  "nb_div x y = (if y = 0 then Inl ZeroDivisionError else Inr (x / y))"

definition iter_diff_jit :: "grid \<Rightarrow> grid \<Rightarrow> error + fval" where
  \<comment> \<open>\<^verbatim>\<open>numpy.sqrt(numpy.sum((p - pn)**2)/numpy.sum(pn**2))\<close>, compiled by numba\<close>
  "iter_diff_jit p pn =
     ebind (nb_div (np_sum (np_sq (np_sub p pn))) (np_sum (np_sq pn))) (\<lambda>q. Inr (np_sqrt (Fin q)))"

subsection \<open>The start value of the residual\<close>

text \<open>
  Both versions of \<^verbatim>\<open>pressure_poisson\<close> start from \<^verbatim>\<open>iter_diff = l2_target + 1\<close> and
  enter their loop when \<^verbatim>\<open>iter_diff > l2_target\<close>. A float64 has 53 significant bits.
  Below \<open>2^53\<close> in magnitude the neighbours of \<open>l2_target\<close> are at most 1 apart, so the
  rounded sum is above \<open>l2_target\<close>. From \<open>2^53\<close> on the floats are even integers (from
  \<open>2^54\<close> on, multiples of 4) and the sum is rounded to the nearest of them, a tie going
  to the one with the even significand: the sum is \<open>l2_target\<close> again exactly when
  \<open>l2_target\<close> is a multiple of 4, with the one exception \<open>- 2^53\<close>, whose upper neighbour
  \<open>- 2^53 + 1\<close> is a float. The tolerance \<open>1e16\<close> is such a value.
\<close>

definition absorbs_one :: "real \<Rightarrow> bool" where
  \<comment> \<open>\<^verbatim>\<open>t + 1 == t\<close> in float64, for a finite float \<open>t\<close>\<close>
  "absorbs_one t \<longleftrightarrow> 2 ^ 53 \<le> \<bar>t\<bar> \<and> t \<noteq> - (2 ^ 53) \<and> t = 4 * of_int \<lfloor>t / 4\<rfloor>"

definition plus_one :: "real \<Rightarrow> real" where
  \<comment> \<open>\<^verbatim>\<open>l2_target + 1\<close>: the sum, or \<open>l2_target\<close> itself where the 1 is absorbed (where the
      sum is rounded to another value above \<open>l2_target\<close>, the exact sum stands for it)\<close>
  "plus_one t = (if absorbs_one t then t else t + 1)"

section \<open>The source term: \<^verbatim>\<open>velocity_term\<close>\<close>

text \<open>
  \<^verbatim>\<open>
  def velocity_term(b, rho, dt, u, v, dx):
      b[1:-1, 1:-1] = (
          rho * dx / 16 *
          (2 / dt * (u[1:-1, 2:] - u[1:-1, :-2] + v[2:, 1:-1] - v[:-2, 1:-1]) -
           2 / dx * (u[2:, 1:-1] - u[:-2, 1:-1]) * (v[1:-1, 2:] - v[1:-1, :-2]) -
          (u[1:-1, 2:] - u[1:-1, :-2])**2 / dx -
          (v[2:, 1:-1] - v[:-2, 1:-1])**2 / dx))
      return b
  \<close>
  The scalars are Python floats (as in the notebooks' calls), so \<^verbatim>\<open>2 / dt\<close> and
  \<^verbatim>\<open>2 / dx\<close> raise ZeroDivisionError on a zero divisor; the checks stand in the order of
  evaluation.
\<close>

definition velocity_rhs :: "real \<Rightarrow> real \<Rightarrow> grid \<Rightarrow> grid \<Rightarrow> real \<Rightarrow> grid" where
  "velocity_rhs rho dt u v dx =
     np_scale (rho * dx / 16)
       (np_sub
         (np_sub
           (np_sub
             (np_scale (2 / dt)
               (np_sub
                 (np_add (np_sub (slice2 sl_inner sl_from2 u) (slice2 sl_inner sl_upto2 u))
                         (slice2 sl_from2 sl_inner v))
                 (slice2 sl_upto2 sl_inner v)))
             (np_mul
               (np_scale (2 / dx) (np_sub (slice2 sl_from2 sl_inner u) (slice2 sl_upto2 sl_inner u)))
               (np_sub (slice2 sl_inner sl_from2 v) (slice2 sl_inner sl_upto2 v))))
           (np_div_scalar
             (np_sq (np_sub (slice2 sl_inner sl_from2 u) (slice2 sl_inner sl_upto2 u))) dx))
         (np_div_scalar
           (np_sq (np_sub (slice2 sl_from2 sl_inner v) (slice2 sl_upto2 sl_inner v))) dx))"

definition velocity_term :: "grid \<Rightarrow> real \<Rightarrow> real \<Rightarrow> grid \<Rightarrow> grid \<Rightarrow> real \<Rightarrow> error + grid" where
  "velocity_term b rho dt u v dx =
     (if dt = 0 then Inl ZeroDivisionError
      else if \<not> same_shape (slice2 sl_inner sl_inner u) (slice2 sl_inner sl_inner v)
        then Inl ValueError
      else if dx = 0 then Inl ZeroDivisionError
      else if \<not> same_shape (slice2 sl_inner sl_inner b) (slice2 sl_inner sl_inner u)
        then Inl ValueError
      else Inr (assign_slice2 sl_inner sl_inner b (velocity_rhs rho dt u v dx)))"

text \<open>
  The call mutates the array object bound to \<open>b\<close> in place. A store maps array
  references to array contents; the call reads the three arrays and writes one.
\<close>

type_synonym ref = nat
type_synonym store = "ref \<Rightarrow> grid"

definition velocity_term_st ::
  "ref \<Rightarrow> real \<Rightarrow> real \<Rightarrow> ref \<Rightarrow> ref \<Rightarrow> real \<Rightarrow> store \<Rightarrow> error + store" where
  "velocity_term_st rb rho dt ru rv dx st =
     ebind (velocity_term (st rb) rho dt (st ru) (st rv) dx) (\<lambda>b'. Inr (st(rb := b')))"

section \<open>The pressure solve: \<^verbatim>\<open>pressure_poisson\<close>\<close>

subsection \<open>The numpy version of the CFD notebook\<close>

text \<open>
  \<^verbatim>\<open>
  def pressure_poisson(p, b, l2_target=1e-4):
      pn = p.copy()
      iter_diff = l2_target + 1
      while iter_diff > l2_target:
          n = 0
          pn = p.copy()
          p[1:-1,1:-1] = (.25 * (pn[1:-1, 2:] + pn[1:-1, :-2] + pn[2:, 1:-1] + pn[:-2, 1:-1])
                          - b[1:-1, 1:-1])
          p[:, 0] = p[:, 1]   #dp/dx = 0 at x = 0
          p[:, -1] = p[:, -2] #dp/dy = 0 at x = 2
          p[0, :] = p[1, :]   #dp/dy = 0 at y = 0
          p[-1, :] = 0        #p = 0 at y = 2
          if n % 10 == 0:
              iter_diff = numpy.sqrt(numpy.sum((p - pn)**2)/numpy.sum(pn**2))
          if n == 500:
              break
          n += 1
      return p
  \<close>
  The function works on the array object \<open>p\<close> in place and reads \<open>b\<close>; the two are
  different array objects (\<^verbatim>\<open>cavity_flow\<close> passes a \<open>b\<close> of its own), so the content of
  \<open>b\<close> is the same in every sweep.
\<close>

definition relax_rhs :: "grid \<Rightarrow> grid \<Rightarrow> grid" where
  \<comment> \<open>the right-hand side of the assignment to \<^verbatim>\<open>p[1:-1,1:-1]\<close>\<close>
  "relax_rhs pn b =
     np_sub
       (np_scale 0.25
         (np_add
           (np_add
             (np_add (slice2 sl_inner sl_from2 pn) (slice2 sl_inner sl_upto2 pn))
             (slice2 sl_from2 sl_inner pn))
           (slice2 sl_upto2 sl_inner pn)))
       (slice2 sl_inner sl_inner b)"

definition relax :: "grid \<Rightarrow> grid \<Rightarrow> grid \<Rightarrow> error + grid" where
  \<comment> \<open>the assignment to \<^verbatim>\<open>p[1:-1,1:-1]\<close>\<close>
  "relax pn b p =
     (if \<not> same_shape (slice2 sl_inner sl_inner pn) (slice2 sl_inner sl_inner b)
        then Inl ValueError
      else Inr (assign_slice2 sl_inner sl_inner p (relax_rhs pn b)))"

definition pressure_bc :: "grid \<Rightarrow> error + grid" where
  \<comment> \<open>the four boundary assignments, in the order of the source\<close>
  "pressure_bc p =
     ebind (get_col p 1) (\<lambda>c1.
     ebind (set_col p 0 c1) (\<lambda>p.
     ebind (get_col p (- 2)) (\<lambda>c2.
     ebind (set_col p (- 1) c2) (\<lambda>p.
     ebind (get_row p 1) (\<lambda>r1.
     ebind (set_row p 0 r1) (\<lambda>p.
     fill_row p (- 1) 0))))))"

definition sweep :: "grid \<Rightarrow> grid \<Rightarrow> error + grid" where
  \<comment> \<open>one relaxation sweep: the copy, the interior update, the boundary conditions\<close>
  "sweep b p = (let pn = p in ebind (relax pn b p) pressure_bc)"

partial_function (option) pp_while ::
  "grid \<Rightarrow> real \<Rightarrow> grid \<Rightarrow> fval \<Rightarrow> (error + grid \<times> fval) option" where
  \<comment> \<open>The \<^verbatim>\<open>while\<close> loop on the variables \<open>p\<close> and \<open>iter_diff\<close> that it carries from one
      iteration to the next; it returns their values when it ends. \<open>None\<close>: the loop never
      ends. The increment \<^verbatim>\<open>n += 1\<close> at the end of the body has no effect on the next
      iteration, which starts with \<^verbatim>\<open>n = 0\<close>.\<close>
  "pp_while b l2_target p iter_diff =
     (if f_gt iter_diff l2_target then
        (let n = (0::nat); pn = p in
         case sweep b p of
           Inl e \<Rightarrow> Some (Inl e)
         | Inr p' \<Rightarrow>
            (let iter_diff' = (if n mod 10 = 0 then iter_diff_of p' pn else iter_diff) in
             if n = 500 then Some (Inr (p', iter_diff'))
             else pp_while b l2_target p' iter_diff'))
      else Some (Inr (p, iter_diff)))"

definition pressure_poisson :: "grid \<Rightarrow> grid \<Rightarrow> real \<Rightarrow> (error + grid) option" where
  \<comment> \<open>the loop from \<^verbatim>\<open>iter_diff = l2_target + 1\<close>, and \<^verbatim>\<open>return p\<close>\<close>
  "pressure_poisson p b l2_target =
     map_option (map_sum id fst) (pp_while b l2_target p (Fin (plus_one l2_target)))"

fun sweeps :: "nat \<Rightarrow> grid \<Rightarrow> grid \<Rightarrow> error + grid" where
  \<comment> \<open>\<open>k\<close> sweeps in a row\<close>
  "sweeps 0 b p = Inr p"
| "sweeps (Suc k) b p = ebind (sweep b p) (sweeps k b)"

subsection \<open>The loop-unrolled, jitted version of the exercise notebooks\<close>

text \<open>
  \<^verbatim>\<open>
  @jit
  def pressure_poisson(p, b, l2_target=1e-4):
      I, J = b.shape
      iter_diff = l2_target + 1
      n = 0
      while iter_diff > l2_target and n <= 500:
          pn = p.copy()
          for i in range(1, I-1):
              for j in range(1, J-1):
                  p_ = pn[i+1, j] + pn[i-1, j] + pn[i, j+1] + pn[i, j-1]
                  p[i, j] = 0.25 * p_ - b[i, j]
          for i in range(I):
              p[i, 0] = p[i, 1]
              p[i, -1] = 0
          for j in range(J):
              p[0, j] = p[1, j]
              p[-1, j] = p[-2, j]
          if n % 10 == 0:
              iter_diff = numpy.sqrt(numpy.sum((p - pn)**2)/numpy.sum(pn**2))
          n += 1
      return p
  \<close>
  The version exported from the compiled module differs in the order of the four
  summands only. The function is compiled by numba: the division of the residual raises
  ZeroDivisionError on a zero denominator, where the interpreted numpy version gives nan
  or inf. An index out of range is modelled as Python's IndexError (compiled code does
  not check bounds); on grids \<open>p\<close> and \<open>b\<close> of one shape with at least two rows and two
  columns no index is out of range. As in the numpy version, \<open>p\<close> and \<open>b\<close> are different
  array objects.
\<close>

definition relax_cell :: "grid \<Rightarrow> grid \<Rightarrow> nat \<Rightarrow> nat \<Rightarrow> grid \<Rightarrow> error + grid" where
  "relax_cell pn b i j p =
     ebind (get2 pn (int i + 1) (int j)) (\<lambda>a1.
     ebind (get2 pn (int i - 1) (int j)) (\<lambda>a2.
     ebind (get2 pn (int i) (int j + 1)) (\<lambda>a3.
     ebind (get2 pn (int i) (int j - 1)) (\<lambda>a4.
     ebind (get2 b (int i) (int j)) (\<lambda>bij.
     set2 p (int i) (int j) (0.25 * (a1 + a2 + a3 + a4) - bij))))))"

definition relax_jit :: "grid \<Rightarrow> grid \<Rightarrow> grid \<Rightarrow> error + grid" where
  "relax_jit pn b p =
     for_each [1..<length b - 1] (\<lambda>i. for_each [1..<ncols b - 1] (\<lambda>j. relax_cell pn b i j)) p"

definition bc_rows_jit :: "grid \<Rightarrow> grid \<Rightarrow> error + grid" where
  "bc_rows_jit b p =
     for_each [0..<length b] (\<lambda>i p.
       ebind (get2 p (int i) 1) (\<lambda>x.
       ebind (set2 p (int i) 0 x) (\<lambda>p.
       set2 p (int i) (- 1) 0))) p"

definition bc_cols_jit :: "grid \<Rightarrow> grid \<Rightarrow> error + grid" where
  "bc_cols_jit b p =
     for_each [0..<ncols b] (\<lambda>j p.
       ebind (get2 p 1 (int j)) (\<lambda>x.
       ebind (set2 p 0 (int j) x) (\<lambda>p.
       ebind (get2 p (- 2) (int j)) (\<lambda>y.
       set2 p (- 1) (int j) y)))) p"

definition sweep_jit :: "grid \<Rightarrow> grid \<Rightarrow> error + grid" where
  "sweep_jit b p =
     (let pn = p in ebind (relax_jit pn b p) (\<lambda>p. ebind (bc_rows_jit b p) (bc_cols_jit b)))"

function ppj_while :: "grid \<Rightarrow> real \<Rightarrow> grid \<times> fval \<times> nat \<Rightarrow> error + grid \<times> fval \<times> nat" where
  "ppj_while b l2_target (p, iter_diff, n) =
     (if f_gt iter_diff l2_target \<and> n \<le> 500 then
        (let pn = p in
         case sweep_jit b p of
           Inl e \<Rightarrow> Inl e
         | Inr p' \<Rightarrow>
            (case (if n mod 10 = 0 then iter_diff_jit p' pn else Inr iter_diff) of
               Inl e \<Rightarrow> Inl e
             | Inr iter_diff' \<Rightarrow> ppj_while b l2_target (p', iter_diff', n + 1)))
      else Inr (p, iter_diff, n))"
  by pat_completeness auto
termination
  by (relation "measure (\<lambda>(b, t, p, d, n). 501 - n)") auto

declare ppj_while.simps [simp del]

definition pressure_poisson_jit :: "grid \<Rightarrow> grid \<Rightarrow> real \<Rightarrow> error + grid" where
  "pressure_poisson_jit p b l2_target =
     ebind (ppj_while b l2_target (p, Fin (plus_one l2_target), 0)) (\<lambda>(p', d, n). Inr p')"

fun sweeps_jit :: "nat \<Rightarrow> grid \<Rightarrow> grid \<Rightarrow> error + grid" where
  "sweeps_jit 0 b p = Inr p"
| "sweeps_jit (Suc k) b p = ebind (sweep_jit b p) (sweeps_jit k b)"

section \<open>The time loop: \<^verbatim>\<open>cavity_flow\<close>\<close>

text \<open>
  \<^verbatim>\<open>
  def cavity_flow(nt, u, v, dt, dx, p, rho, nu, rtol=1e-3):
      un = numpy.empty_like(u)
      vn = numpy.empty_like(v)
      ny, nx = u.shape
      b = numpy.zeros((ny, nx))
      for n in range(nt):
          un = u.copy()
          vn = v.copy()
          b = velocity_term(b, rho, dt, u, v, dx)
          p = pressure_poisson(p, b, rtol)
          u[1:-1,1:-1] = (un[1:-1, 1:-1] - dt / dx *
                          (un[1:-1,1:-1] * (un[1:-1, 1:-1] - un[1:-1, :-2]) +
                           vn[1:-1, 1:-1 ] * (un[1:-1, 1:-1] - un[:-2, 1:-1]) +
                           1 / (2 * rho) * (p[1:-1, 2:] - p[1:-1, :-2])) +
                          nu * dt / dx**2 *
                          (un[1:-1, 2:] + un[1:-1, :-2] + un[2:, 1:-1] + un[:-2, 1:-1] -
                           4 * un[1:-1, 1:-1]))
          v[1:-1,1:-1] = (vn[1:-1, 1:-1] - dt / dx *
                          (un[1:-1,1:-1] * (vn[1:-1, 1:-1] - vn[1:-1, :-2]) +
                           vn[1:-1, 1:-1 ] * (vn[1:-1, 1:-1] - vn[:-2, 1:-1]) +
                           1 / (2 * rho) * (p[2:, 1:-1] - p[:-2, 1:-1])) +
                          nu * dt / dx**2 *
                          (vn[1:-1, 2:] + vn[1:-1, :-2] + vn[2:, 1:-1] + vn[:-2, 1:-1] -
                           4 * vn[1:-1, 1:-1]))
          u[:, 0] = 0
          u[:, -1] = 0
          v[:, 0] = 0
          v[:, -1] = 0
          u[0, :] = 0
          u[-1, :] = 1    #set velocity on cavity lid equal to 1
          v[0, :] = 0
          v[-1, :] = 0
      return u, v, p
  \<close>
  It calls the \<^verbatim>\<open>velocity_term\<close> and the \<^verbatim>\<open>pressure_poisson\<close> of the same notebook.
\<close>

definition u_rhs :: "grid \<Rightarrow> grid \<Rightarrow> grid \<Rightarrow> real \<Rightarrow> real \<Rightarrow> real \<Rightarrow> real \<Rightarrow> grid" where
  "u_rhs un vn p dt dx rho nu =
     np_add
       (np_sub (slice2 sl_inner sl_inner un)
         (np_scale (dt / dx)
           (np_add
             (np_add
               (np_mul (slice2 sl_inner sl_inner un)
                 (np_sub (slice2 sl_inner sl_inner un) (slice2 sl_inner sl_upto2 un)))
               (np_mul (slice2 sl_inner sl_inner vn)
                 (np_sub (slice2 sl_inner sl_inner un) (slice2 sl_upto2 sl_inner un))))
             (np_scale (1 / (2 * rho))
               (np_sub (slice2 sl_inner sl_from2 p) (slice2 sl_inner sl_upto2 p))))))
       (np_scale (nu * dt / dx ^ 2)
         (np_sub
           (np_add
             (np_add
               (np_add (slice2 sl_inner sl_from2 un) (slice2 sl_inner sl_upto2 un))
               (slice2 sl_from2 sl_inner un))
             (slice2 sl_upto2 sl_inner un))
           (np_scale 4 (slice2 sl_inner sl_inner un))))"

definition v_rhs :: "grid \<Rightarrow> grid \<Rightarrow> grid \<Rightarrow> real \<Rightarrow> real \<Rightarrow> real \<Rightarrow> real \<Rightarrow> grid" where
  "v_rhs un vn p dt dx rho nu =
     np_add
       (np_sub (slice2 sl_inner sl_inner vn)
         (np_scale (dt / dx)
           (np_add
             (np_add
               (np_mul (slice2 sl_inner sl_inner un)
                 (np_sub (slice2 sl_inner sl_inner vn) (slice2 sl_inner sl_upto2 vn)))
               (np_mul (slice2 sl_inner sl_inner vn)
                 (np_sub (slice2 sl_inner sl_inner vn) (slice2 sl_upto2 sl_inner vn))))
             (np_scale (1 / (2 * rho))
               (np_sub (slice2 sl_from2 sl_inner p) (slice2 sl_upto2 sl_inner p))))))
       (np_scale (nu * dt / dx ^ 2)
         (np_sub
           (np_add
             (np_add
               (np_add (slice2 sl_inner sl_from2 vn) (slice2 sl_inner sl_upto2 vn))
               (slice2 sl_from2 sl_inner vn))
             (slice2 sl_upto2 sl_inner vn))
           (np_scale 4 (slice2 sl_inner sl_inner vn))))"

text \<open>
  The arrays \<open>u\<close>, \<open>v\<close> and \<open>p\<close> are the caller's array objects, and the function returns
  these same objects after having written into them; \<open>un\<close> and \<open>vn\<close> are copies. The loop
  body is therefore a sequence of assignments into a store of arrays, each of which
  reads the contents that the assignments before it have left: when two of the names are
  bound to one array object, an assignment through one name is seen through the other.
  The array \<open>b\<close> is allocated by the function and is an object of its own.
\<close>

definition upd_array :: "ref \<Rightarrow> (grid \<Rightarrow> error + grid) \<Rightarrow> store \<Rightarrow> error + store" where
  \<comment> \<open>an assignment into the array \<open>r\<close>: its new content is computed from its old one\<close>
  "upd_array r f st = ebind (f (st r)) (\<lambda>g. Inr (st(r := g)))"

definition momentum_u ::
  "grid \<Rightarrow> grid \<Rightarrow> grid \<Rightarrow> real \<Rightarrow> real \<Rightarrow> real \<Rightarrow> real \<Rightarrow> grid \<Rightarrow> error + grid" where
  \<comment> \<open>The assignment to \<^verbatim>\<open>u[1:-1,1:-1]\<close>. The scalar divisions \<^verbatim>\<open>dt / dx\<close>,
      \<^verbatim>\<open>1 / (2 * rho)\<close> and \<^verbatim>\<open>nu * dt / dx**2\<close> are Python's and raise on a zero divisor.\<close>
  "momentum_u un vn p dt dx rho nu u =
     (if dx = 0 then Inl ZeroDivisionError
      else if \<not> same_shape (slice2 sl_inner sl_inner un) (slice2 sl_inner sl_inner vn)
        then Inl ValueError
      else if 2 * rho = 0 then Inl ZeroDivisionError
      else if \<not> same_shape (slice2 sl_inner sl_inner un) (slice2 sl_inner sl_inner p)
        then Inl ValueError
      else if dx ^ 2 = 0 then Inl ZeroDivisionError
      else if \<not> same_shape (slice2 sl_inner sl_inner u) (slice2 sl_inner sl_inner un)
        then Inl ValueError
      else Inr (assign_slice2 sl_inner sl_inner u (u_rhs un vn p dt dx rho nu)))"

definition momentum_v ::
  "grid \<Rightarrow> grid \<Rightarrow> grid \<Rightarrow> real \<Rightarrow> real \<Rightarrow> real \<Rightarrow> real \<Rightarrow> grid \<Rightarrow> error + grid" where
  \<comment> \<open>the assignment to \<^verbatim>\<open>v[1:-1,1:-1]\<close>\<close>
  "momentum_v un vn p dt dx rho nu v =
     (if dx = 0 then Inl ZeroDivisionError
      else if \<not> same_shape (slice2 sl_inner sl_inner un) (slice2 sl_inner sl_inner vn)
        then Inl ValueError
      else if 2 * rho = 0 then Inl ZeroDivisionError
      else if \<not> same_shape (slice2 sl_inner sl_inner vn) (slice2 sl_inner sl_inner p)
        then Inl ValueError
      else if dx ^ 2 = 0 then Inl ZeroDivisionError
      else if \<not> same_shape (slice2 sl_inner sl_inner v) (slice2 sl_inner sl_inner vn)
        then Inl ValueError
      else Inr (assign_slice2 sl_inner sl_inner v (v_rhs un vn p dt dx rho nu)))"

definition velocity_bc :: "ref \<Rightarrow> ref \<Rightarrow> store \<Rightarrow> error + store" where
  \<comment> \<open>the eight boundary assignments, in the order of the source, into the arrays bound
      to \<open>u\<close> and \<open>v\<close>\<close>
  "velocity_bc ru rv st =
     ebind (upd_array ru (\<lambda>u. fill_col u 0 0) st) (\<lambda>st.
     ebind (upd_array ru (\<lambda>u. fill_col u (- 1) 0) st) (\<lambda>st.
     ebind (upd_array rv (\<lambda>v. fill_col v 0 0) st) (\<lambda>st.
     ebind (upd_array rv (\<lambda>v. fill_col v (- 1) 0) st) (\<lambda>st.
     ebind (upd_array ru (\<lambda>u. fill_row u 0 0) st) (\<lambda>st.
     ebind (upd_array ru (\<lambda>u. fill_row u (- 1) 1) st) (\<lambda>st.
     ebind (upd_array rv (\<lambda>v. fill_row v 0 0) st) (\<lambda>st.
     upd_array rv (\<lambda>v. fill_row v (- 1) 0) st)))))))"

definition cavity_step ::
  "real \<Rightarrow> real \<Rightarrow> real \<Rightarrow> real \<Rightarrow> real \<Rightarrow> ref \<Rightarrow> ref \<Rightarrow> ref \<Rightarrow> ref \<Rightarrow> store
   \<Rightarrow> (error + store) option" where
  \<comment> \<open>One pass through the body of the \<^verbatim>\<open>for\<close> loop, on the arrays bound to \<open>u\<close>, \<open>v\<close>,
      \<open>p\<close> and \<open>b\<close>; \<open>None\<close> when the pressure solve never returns.\<close>
  "cavity_step dt dx rho nu rtol ru rv rp rb st =
     (let un = st ru; vn = st rv in
      case velocity_term_st rb rho dt ru rv dx st of
        Inl e \<Rightarrow> Some (Inl e)
      | Inr st \<Rightarrow>
         (case pressure_poisson (st rp) (st rb) rtol of
            None \<Rightarrow> None
          | Some (Inl e) \<Rightarrow> Some (Inl e)
          | Some (Inr p') \<Rightarrow>
             (let st = st(rp := p') in
              Some (ebind (upd_array ru (momentum_u un vn (st rp) dt dx rho nu) st) (\<lambda>st.
                    ebind (upd_array rv (momentum_v un vn (st rp) dt dx rho nu) st)
                      (velocity_bc ru rv))))))"

fun cavity_loop ::
  "nat \<Rightarrow> real \<Rightarrow> real \<Rightarrow> real \<Rightarrow> real \<Rightarrow> real \<Rightarrow> ref \<Rightarrow> ref \<Rightarrow> ref \<Rightarrow> ref \<Rightarrow> store
   \<Rightarrow> (error + store) option" where
  "cavity_loop 0 dt dx rho nu rtol ru rv rp rb st = Some (Inr st)"
| "cavity_loop (Suc k) dt dx rho nu rtol ru rv rp rb st =
     (case cavity_step dt dx rho nu rtol ru rv rp rb st of
        None \<Rightarrow> None
      | Some (Inl e) \<Rightarrow> Some (Inl e)
      | Some (Inr st') \<Rightarrow> cavity_loop k dt dx rho nu rtol ru rv rp rb st')"

definition cavity_flow ::
  "nat \<Rightarrow> ref \<Rightarrow> ref \<Rightarrow> real \<Rightarrow> real \<Rightarrow> ref \<Rightarrow> real \<Rightarrow> real \<Rightarrow> real \<Rightarrow> store
   \<Rightarrow> (error + store) option" where
  \<comment> \<open>The result is the store at the end: the returned \<open>u\<close>, \<open>v\<close>, \<open>p\<close> are the arrays
      \<open>ru\<close>, \<open>rv\<close>, \<open>rp\<close> again. The new array \<open>b\<close> gets a reference other than these.\<close>
  "cavity_flow nt ru rv dt dx rp rho nu rtol st =
     (let ny = length (st ru); nx = ncols (st ru);
          rb = Suc (max ru (max rv rp));
          st = st(rb := zeros ny nx)
      in cavity_loop nt dt dx rho nu rtol ru rv rp rb st)"

section \<open>The vocabulary of the properties\<close>

definition interior :: "nat \<Rightarrow> nat \<Rightarrow> nat \<Rightarrow> nat \<Rightarrow> bool" where
  \<comment> \<open>the cells \<open>1 \<le> i \<le> ny - 2\<close>, \<open>1 \<le> j \<le> nx - 2\<close>\<close>
  "interior ny nx i j \<longleftrightarrow> 1 \<le> i \<and> i + 1 < ny \<and> 1 \<le> j \<and> j + 1 < nx"

definition on_ring :: "nat \<Rightarrow> nat \<Rightarrow> nat \<Rightarrow> nat \<Rightarrow> bool" where
  \<comment> \<open>the outermost ring: row 0, row \<open>ny - 1\<close>, column 0, column \<open>nx - 1\<close>\<close>
  "on_ring ny nx i j \<longleftrightarrow> i < ny \<and> j < nx \<and> (i = 0 \<or> i = ny - 1 \<or> j = 0 \<or> j = nx - 1)"

definition source_cell :: "real \<Rightarrow> real \<Rightarrow> real \<Rightarrow> grid \<Rightarrow> grid \<Rightarrow> nat \<Rightarrow> nat \<Rightarrow> real" where
  \<comment> \<open>the source term of cell \<open>(i, j)\<close>, as the specification writes it\<close>
  "source_cell rho dt dx u v i j =
     rho * dx / 16 *
       (2 / dt * (u ! i ! (j + 1) - u ! i ! (j - 1) + v ! (i + 1) ! j - v ! (i - 1) ! j)
        - 2 / dx * (u ! (i + 1) ! j - u ! (i - 1) ! j) * (v ! i ! (j + 1) - v ! i ! (j - 1))
        - (u ! i ! (j + 1) - u ! i ! (j - 1)) ^ 2 / dx
        - (v ! (i + 1) ! j - v ! (i - 1) ! j) ^ 2 / dx)"

definition relaxed_cell :: "grid \<Rightarrow> grid \<Rightarrow> nat \<Rightarrow> nat \<Rightarrow> real" where
  \<comment> \<open>the relaxed pressure of cell \<open>(i, j)\<close>, from the saved copy \<open>pn\<close> and the source \<open>b\<close>\<close>
  "relaxed_cell pn b i j =
     0.25 * (pn ! i ! (j + 1) + pn ! i ! (j - 1) + pn ! (i + 1) ! j + pn ! (i - 1) ! j)
       - b ! i ! j"

definition v_cell :: "grid \<Rightarrow> grid \<Rightarrow> grid \<Rightarrow> real \<Rightarrow> real \<Rightarrow> real \<Rightarrow> real \<Rightarrow> real \<Rightarrow> nat \<Rightarrow> nat \<Rightarrow> real" where
  \<comment> \<open>The \<open>v\<close>-momentum update of cell \<open>(i, j)\<close> with the velocity \<open>a\<close> advecting the
      y-derivative term; the x-derivative term is advected by \<open>un\<close>.\<close>
  "v_cell un vn p dt dx rho nu a i j =
     vn ! i ! j
       - dt / dx *
           (un ! i ! j * (vn ! i ! j - vn ! i ! (j - 1))
            + a * (vn ! i ! j - vn ! (i - 1) ! j)
            + 1 / (2 * rho) * (p ! (i + 1) ! j - p ! (i - 1) ! j))
       + nu * dt / dx ^ 2 *
           (vn ! i ! (j + 1) + vn ! i ! (j - 1) + vn ! (i + 1) ! j + vn ! (i - 1) ! j
            - 4 * vn ! i ! j)"

definition copy_col :: "grid \<Rightarrow> nat \<Rightarrow> nat \<Rightarrow> grid" where
  \<comment> \<open>column \<open>ks\<close> copied into column \<open>kd\<close>\<close>
  "copy_col g kd ks = map (\<lambda>r. r[kd := r ! ks]) g"

definition copy_row :: "grid \<Rightarrow> nat \<Rightarrow> nat \<Rightarrow> grid" where
  \<comment> \<open>row \<open>ks\<close> copied into row \<open>kd\<close>\<close>
  "copy_row g kd ks = g[kd := g ! ks]"

definition const_row :: "grid \<Rightarrow> nat \<Rightarrow> real \<Rightarrow> grid" where
  "const_row g k c = g[k := map (\<lambda>_. c) (g ! k)]"

definition const_col :: "grid \<Rightarrow> nat \<Rightarrow> real \<Rightarrow> grid" where
  "const_col g k c = map (\<lambda>r. r[k := c]) g"

definition bc_grid :: "nat \<Rightarrow> nat \<Rightarrow> grid \<Rightarrow> grid" where
  \<comment> \<open>what the four boundary assignments of the numpy version make of a grid of shape
      \<open>(ny, nx)\<close> with at least two rows and two columns\<close>
  "bc_grid ny nx p =
     const_row (copy_row (copy_col (copy_col p 0 1) (nx - 1) (nx - 2)) 0 1) (ny - 1) 0"

definition upd2 :: "grid \<Rightarrow> nat \<Rightarrow> nat \<Rightarrow> real \<Rightarrow> grid" where
  \<comment> \<open>one cell overwritten\<close>
  "upd2 g i j x = g[i := (g ! i)[j := x]]"

definition bcj_cell :: "nat \<Rightarrow> nat \<Rightarrow> grid \<Rightarrow> nat \<Rightarrow> nat \<Rightarrow> real" where
  \<comment> \<open>the cell \<open>(r, c)\<close> after the two boundary loops of the jitted version have run on a
      grid \<open>g\<close> of shape \<open>(ny, nx)\<close> with at least two rows and two columns\<close>
  "bcj_cell ny nx g r c =
     (let r' = (if r = 0 then 1 else if r = ny - 1 then (if ny = 2 then 1 else ny - 2) else r)
      in if c = nx - 1 then 0 else if c = 0 then g ! r' ! 1 else g ! r' ! c)"

definition lid_u :: "nat \<Rightarrow> nat \<Rightarrow> grid \<Rightarrow> grid" where
  \<comment> \<open>what the boundary assignments of \<^verbatim>\<open>cavity_flow\<close> make of \<open>u\<close>, of shape \<open>(ny, nx)\<close>\<close>
  "lid_u ny nx u =
     const_row (const_row (const_col (const_col u 0 0) (nx - 1) 0) 0 0) (ny - 1) 1"

definition wall_v :: "nat \<Rightarrow> nat \<Rightarrow> grid \<Rightarrow> grid" where
  \<comment> \<open>what the boundary assignments of \<^verbatim>\<open>cavity_flow\<close> make of \<open>v\<close>, of shape \<open>(ny, nx)\<close>\<close>
  "wall_v ny nx v =
     const_row (const_row (const_col (const_col v 0 0) (nx - 1) 0) 0 0) (ny - 1) 0"

definition cavity3 :: store where
  \<comment> \<open>a store for runs on 3 by 3 grids: \<open>u\<close> at rest in array 10, \<open>v\<close> with one moving
      cell in array 11, a pressure in array 12\<close>
  "cavity3 = (\<lambda>_. [])
     (10 := zeros 3 3,
      11 := [[0, 0, 0], [0, 1, 0], [0, 0, 0]],
      12 := [[4, 4, 4], [4, 4, 4], [0, 0, 0]])"

definition stencil_slice :: "pyslice \<Rightarrow> nat \<Rightarrow> bool" where
  \<comment> \<open>a slice that drops two entries of an axis of length at least 2, starting at \<open>off\<close>\<close>
  "stencil_slice sl off \<longleftrightarrow>
     (off \<le> 2 \<and> (\<forall>n. slice_stop n sl - slice_start n sl = n - 2 \<and> slice_start n sl \<le> n \<and>
        (2 \<le> n \<longrightarrow> slice_start n sl = off)))"

section \<open>Basic facts about arrays\<close>

lemma ebind_simps [simp]:
  "ebind (Inl e) f = Inl e" "ebind (Inr x) f = f x"
  by (simp_all add: ebind_def)

lemma ebind_eq_Inr: "ebind m f = Inr y \<longleftrightarrow> (\<exists>x. m = Inr x \<and> f x = Inr y)"
  by (cases m) simp_all

lemma is_grid_length: "is_grid ny nx g \<Longrightarrow> length g = ny"
  by (simp add: is_grid_def)

lemma is_grid_nth: "is_grid ny nx g \<Longrightarrow> i < ny \<Longrightarrow> length (g ! i) = nx"
  by (simp add: is_grid_def list_all_length)

lemma is_gridI: "length g = ny \<Longrightarrow> (\<And>i. i < ny \<Longrightarrow> length (g ! i) = nx) \<Longrightarrow> is_grid ny nx g"
  by (simp add: is_grid_def list_all_length)

lemma grid_eqI:
  assumes "is_grid ny nx a" "is_grid ny nx c"
    and "\<And>i j. i < ny \<Longrightarrow> j < nx \<Longrightarrow> a ! i ! j = c ! i ! j"
  shows "a = c"
proof (rule nth_equalityI)
  show "length a = length c" using assms(1,2) by (simp add: is_grid_length)
next
  fix i assume "i < length a"
  then have i: "i < ny" using assms(1) by (simp add: is_grid_length)
  show "a ! i = c ! i"
    by (rule nth_equalityI) (use i assms in \<open>simp_all add: is_grid_nth\<close>)
qed

lemma stencil_inner: "stencil_slice sl_inner 1"
  by (auto simp: stencil_slice_def sl_inner_def slice_start_def slice_stop_def clamp_idx_def)

lemma stencil_from2: "stencil_slice sl_from2 2"
  by (auto simp: stencil_slice_def sl_from2_def slice_start_def slice_stop_def clamp_idx_def)

lemma stencil_upto2: "stencil_slice sl_upto2 0"
  by (auto simp: stencil_slice_def sl_upto2_def slice_start_def slice_stop_def clamp_idx_def)

lemma stencil_slice_len: "stencil_slice sl off \<Longrightarrow> slice_stop n sl - slice_start n sl = n - 2"
  unfolding stencil_slice_def by blast

lemma stencil_slice_start: "stencil_slice sl off \<Longrightarrow> 2 \<le> n \<Longrightarrow> slice_start n sl = off"
  unfolding stencil_slice_def by blast

lemma stencil_off_le: "stencil_slice sl off \<Longrightarrow> off \<le> 2"
  by (simp add: stencil_slice_def)

lemma length_py_slice: "stencil_slice sl off \<Longrightarrow> length (py_slice sl xs) = length xs - 2"
  using stencil_slice_len[of sl off "length xs"] stencil_slice_start[of sl off "length xs"]
    stencil_off_le[of sl off]
  by (cases "2 \<le> length xs") (simp_all add: py_slice_def Let_def)

lemma nth_py_slice:
  "stencil_slice sl off \<Longrightarrow> k < length xs - 2 \<Longrightarrow> py_slice sl xs ! k = xs ! (off + k)"
  using stencil_slice_len[of sl off "length xs"] stencil_slice_start[of sl off "length xs"]
    stencil_off_le[of sl off]
  by (simp add: py_slice_def Let_def)

lemma is_grid_slice2:
  assumes "stencil_slice rs ro" "stencil_slice cs co" "is_grid ny nx g"
  shows "is_grid (ny - 2) (nx - 2) (slice2 rs cs g)"
proof (rule is_gridI)
  show "length (slice2 rs cs g) = ny - 2"
    using assms by (simp add: slice2_def length_py_slice is_grid_length)
next
  fix i assume i: "i < ny - 2"
  with stencil_off_le[OF assms(1)] have "ro + i < ny" by simp
  with assms i show "length (slice2 rs cs g ! i) = nx - 2"
    by (simp add: slice2_def length_py_slice nth_py_slice is_grid_length is_grid_nth)
qed

lemma nth_slice2:
  assumes "stencil_slice rs ro" "stencil_slice cs co" "is_grid ny nx g" "i < ny - 2" "j < nx - 2"
  shows "slice2 rs cs g ! i ! j = g ! (ro + i) ! (co + j)"
proof -
  from stencil_off_le[OF assms(1)] assms(4) have "ro + i < ny" by simp
  with assms show ?thesis
    by (simp add: slice2_def length_py_slice nth_py_slice is_grid_length is_grid_nth)
qed

lemma same_shapeI: "is_grid m n a \<Longrightarrow> is_grid m n c \<Longrightarrow> same_shape a c"
  by (auto simp: same_shape_def is_grid_def list_all_length intro!: nth_equalityI)

lemma is_grid_map2: "is_grid m n a \<Longrightarrow> is_grid m n c \<Longrightarrow> is_grid m n (map2 (map2 f) a c)"
  by (rule is_gridI) (simp_all add: is_grid_length is_grid_nth)

lemma nth_map2_grid:
  "is_grid m n a \<Longrightarrow> is_grid m n c \<Longrightarrow> i < m \<Longrightarrow> j < n \<Longrightarrow>
   map2 (map2 f) a c ! i ! j = f (a ! i ! j) (c ! i ! j)"
  by (simp add: is_grid_length is_grid_nth)

lemma is_grid_map: "is_grid m n a \<Longrightarrow> is_grid m n (map (map f) a)"
  by (rule is_gridI) (simp_all add: is_grid_length is_grid_nth)

lemma nth_map_grid:
  "is_grid m n a \<Longrightarrow> i < m \<Longrightarrow> j < n \<Longrightarrow> map (map f) a ! i ! j = f (a ! i ! j)"
  by (simp add: is_grid_length is_grid_nth)

lemmas is_grid_np =
  is_grid_map2[of _ _ _ _ "(+)", folded np_add_def]
  is_grid_map2[of _ _ _ _ "(-)", folded np_sub_def]
  is_grid_map2[of _ _ _ _ "(*)", folded np_mul_def]
  is_grid_map[of _ _ _ "\<lambda>x. s * x", folded np_scale_def]
  is_grid_map[of _ _ _ "\<lambda>x. x / s", folded np_div_scalar_def]
  is_grid_map[of _ _ _ "\<lambda>x. x ^ 2", folded np_sq_def]
  for s

lemmas nth_np =
  nth_map2_grid[of _ _ _ _ _ _ "(+)", folded np_add_def]
  nth_map2_grid[of _ _ _ _ _ _ "(-)", folded np_sub_def]
  nth_map2_grid[of _ _ _ _ _ _ "(*)", folded np_mul_def]
  nth_map_grid[of _ _ _ _ _ "\<lambda>x. s * x", folded np_scale_def]
  nth_map_grid[of _ _ _ _ _ "\<lambda>x. x / s", folded np_div_scalar_def]
  nth_map_grid[of _ _ _ _ _ "\<lambda>x. x ^ 2", folded np_sq_def]
  for s

lemma slice_inner_bounds:
  "slice_start n sl_inner = min n 1" "slice_stop n sl_inner = n - 1"
  by (auto simp: sl_inner_def slice_start_def slice_stop_def clamp_idx_def)

lemma length_assign_slice [simp]: "length (assign_slice sl xs ys) = length xs"
  by (simp add: assign_slice_def Let_def)

lemma is_grid_assign_slice2:
  "is_grid ny nx g \<Longrightarrow> is_grid ny nx (assign_slice2 rs cs g rhs)"
  by (rule is_gridI) (simp_all add: assign_slice2_def Let_def is_grid_length is_grid_nth)

lemma nth_assign_inner:
  assumes "is_grid ny nx g" "i < ny" "j < nx"
  shows "assign_slice2 sl_inner sl_inner g rhs ! i ! j =
         (if 1 \<le> i \<and> i < ny - 1 \<and> 1 \<le> j \<and> j < nx - 1 then rhs ! (i - 1) ! (j - 1)
          else g ! i ! j)"
  using assms
  by (auto simp: assign_slice2_def assign_slice_def Let_def slice_inner_bounds
      is_grid_length is_grid_nth)

lemmas length_py_slice3 [simp] =
  length_py_slice[OF stencil_inner] length_py_slice[OF stencil_from2] length_py_slice[OF stencil_upto2]

lemmas nth_py_slice3 [simp] =
  nth_py_slice[OF stencil_inner] nth_py_slice[OF stencil_from2] nth_py_slice[OF stencil_upto2]

lemmas np_defs = np_add_def np_sub_def np_mul_def np_scale_def np_div_scalar_def np_sq_def

lemma is_grid3 [simp]: "is_grid 3 3 [[a1, a2, a3], [b1, b2, b3], [c1, c2, c3]]"
  by (simp add: is_grid_def)

lemma nth_zeros: "i < ny \<Longrightarrow> j < nx \<Longrightarrow> zeros ny nx ! i ! j = 0"
  by (simp add: zeros_def)

lemma is_grid_zeros: "is_grid ny nx (zeros ny nx)"
  by (simp add: is_grid_def zeros_def list_all_length)

section \<open>The source term\<close>

lemma is_grid_velocity_rhs:
  assumes "is_grid ny nx u" "is_grid ny nx v"
  shows "is_grid (ny - 2) (nx - 2) (velocity_rhs rho dt u v dx)"
  unfolding velocity_rhs_def
  by (intro is_grid_np is_grid_slice2[OF _ _ assms(1)] is_grid_slice2[OF _ _ assms(2)])
    (rule stencil_inner stencil_from2 stencil_upto2)+

lemma nth_velocity_rhs:
  assumes "is_grid ny nx u" "is_grid ny nx v" "i < ny - 2" "j < nx - 2"
  shows "velocity_rhs rho dt u v dx ! i ! j = source_cell rho dt dx u v (i + 1) (j + 1)"
  using assms
  by (simp add: velocity_rhs_def source_cell_def np_defs slice2_def is_grid_length is_grid_nth)

lemma velocity_term_ok:
  assumes "is_grid ny nx b" "is_grid ny nx u" "is_grid ny nx v" "dt \<noteq> 0" "dx \<noteq> 0"
  shows "velocity_term b rho dt u v dx =
         Inr (assign_slice2 sl_inner sl_inner b (velocity_rhs rho dt u v dx))"
proof -
  have "same_shape (slice2 sl_inner sl_inner u) (slice2 sl_inner sl_inner v)"
    "same_shape (slice2 sl_inner sl_inner b) (slice2 sl_inner sl_inner u)"
    using assms(1-3) by (blast intro: same_shapeI is_grid_slice2 stencil_inner)+
  with assms(4,5) show ?thesis by (simp add: velocity_term_def)
qed

text \<open>
  C5. For grids \<open>b\<close>, \<open>u\<close>, \<open>v\<close> of one shape \<open>(ny, nx)\<close> and scalars with \<open>dt\<close> and \<open>dx\<close>
  not zero, \<^verbatim>\<open>velocity_term\<close> returns, and every interior cell of the returned \<open>b\<close> holds
  \<open>rho*dx/16 * ((2/dt)*(u[i,j+1]-u[i,j-1]+v[i+1,j]-v[i-1,j])
  - (2/dx)*(u[i+1,j]-u[i-1,j])*(v[i,j+1]-v[i,j-1]) - (u[i,j+1]-u[i,j-1])**2/dx
  - (v[i+1,j]-v[i-1,j])**2/dx)\<close>; for all-zero \<open>u\<close> and \<open>v\<close> the interior of the returned
  \<open>b\<close> is all zero.
\<close>

theorem velocity_term_interior:
  assumes "is_grid ny nx b" "is_grid ny nx u" "is_grid ny nx v" "dt \<noteq> 0" "dx \<noteq> 0"
  shows "\<exists>b'. velocity_term b rho dt u v dx = Inr b' \<and> is_grid ny nx b' \<and>
           (\<forall>i j. interior ny nx i j \<longrightarrow> b' ! i ! j = source_cell rho dt dx u v i j) \<and>
           (u = zeros ny nx \<and> v = zeros ny nx \<longrightarrow> (\<forall>i j. interior ny nx i j \<longrightarrow> b' ! i ! j = 0))"
proof -
  let ?b' = "assign_slice2 sl_inner sl_inner b (velocity_rhs rho dt u v dx)"
  have eq: "velocity_term b rho dt u v dx = Inr ?b'"
    using assms by (rule velocity_term_ok)
  have shape: "is_grid ny nx ?b'"
    using assms(1) by (rule is_grid_assign_slice2)
  have cell: "?b' ! i ! j = source_cell rho dt dx u v i j" if "interior ny nx i j" for i j
  proof -
    from that have ij: "1 \<le> i" "i < ny - 1" "i < ny" "1 \<le> j" "j < nx - 1" "j < nx"
      "i - 1 < ny - 2" "j - 1 < nx - 2"
      by (auto simp: interior_def)
    have "?b' ! i ! j = velocity_rhs rho dt u v dx ! (i - 1) ! (j - 1)"
      using ij assms(1) by (simp add: nth_assign_inner)
    also have "\<dots> = source_cell rho dt dx u v (i - 1 + 1) (j - 1 + 1)"
      using assms(2,3) ij(7,8) by (rule nth_velocity_rhs)
    finally show ?thesis using ij by simp
  qed
  have zero: "source_cell rho dt dx (zeros ny nx) (zeros ny nx) i j = 0"
    if "interior ny nx i j" for i j
  proof -
    from that have "i < ny" "i + 1 < ny" "i - 1 < ny" "j < nx" "j + 1 < nx" "j - 1 < nx"
      by (auto simp: interior_def)
    then show ?thesis
      by (simp add: source_cell_def nth_zeros)
  qed
  from eq shape cell zero show ?thesis by auto
qed

text \<open>
  Witness of C5: a 3 by 3 run with non-zero velocities, whose only interior cell gets the
  value of the formula, and a run with zero velocities, whose interior cell becomes 0.
\<close>

theorem velocity_term_interior_witness:
  "(\<exists>b'. velocity_term (zeros 3 3) 1 1 [[0, 1, 0], [2, 0, 3], [0, 5, 0]]
            [[0, 1, 0], [4, 0, 6], [0, 3, 0]] 1 = Inr b' \<and> b' ! 1 ! 1 = - 15 / 16) \<and>
   (\<exists>b'. velocity_term [[7, 7, 7], [7, 7, 7], [7, 7, 7]] 1 1 (zeros 3 3) (zeros 3 3) 1 = Inr b' \<and>
          b' ! 1 ! 1 = 0)"
proof -
  have i: "interior 3 3 1 1" by (simp add: interior_def)
  let ?u = "[[0, 1, 0], [2, 0, 3], [0, 5, 0::real]]" and ?v = "[[0, 1, 0], [4, 0, 6], [0, 3, 0::real]]"
  obtain b1 where b1: "velocity_term (zeros 3 3) 1 1 ?u ?v 1 = Inr b1"
    "\<forall>i j. interior 3 3 i j \<longrightarrow> b1 ! i ! j = source_cell 1 1 1 ?u ?v i j"
    using velocity_term_interior[of 3 3 "zeros 3 3" ?u ?v 1 1 1]
    by (auto simp: is_grid_zeros)
  from b1(2) i have "b1 ! 1 ! 1 = source_cell 1 1 1 ?u ?v 1 1" by blast
  then have v1: "b1 ! 1 ! 1 = - 15 / 16" by (simp add: source_cell_def)
  obtain b2 where b2: "velocity_term [[7, 7, 7], [7, 7, 7], [7, 7, 7]] 1 1 (zeros 3 3) (zeros 3 3) 1 = Inr b2"
    "\<forall>i j. interior 3 3 i j \<longrightarrow> b2 ! i ! j = 0"
    using velocity_term_interior[of 3 3 "[[7, 7, 7], [7, 7, 7], [7, 7, 7]]" "zeros 3 3" "zeros 3 3" 1 1 1]
    by (auto simp: is_grid_zeros)
  from b2(2) i have "b2 ! 1 ! 1 = 0" by blast
  with b1(1) v1 b2(1) show ?thesis by blast
qed

lemma on_ring_not_inner:
  "on_ring ny nx i j \<Longrightarrow> \<not> (1 \<le> i \<and> i < ny - 1 \<and> 1 \<le> j \<and> j < nx - 1)"
  by (auto simp: on_ring_def)

text \<open>
  C9. \<^verbatim>\<open>velocity_term\<close> writes the interior of \<open>b\<close> only. In a store where the arrays
  \<open>u\<close> and \<open>v\<close> are not the array \<open>b\<close>, a call that returns leaves \<open>u\<close>, \<open>v\<close> and every
  other array as they were, keeps the shape of \<open>b\<close>, and leaves every cell of the outermost
  ring of \<open>b\<close> (row 0, row \<open>ny - 1\<close>, column 0, column \<open>nx - 1\<close>) at its old value.
\<close>

theorem velocity_term_frame:
  assumes "is_grid ny nx (st rb)"
    and "velocity_term_st rb rho dt ru rv dx st = Inr st'"
    and "ru \<noteq> rb" "rv \<noteq> rb"
  shows "st' ru = st ru \<and> st' rv = st rv \<and> (\<forall>r. r \<noteq> rb \<longrightarrow> st' r = st r) \<and>
         is_grid ny nx (st' rb) \<and>
         (\<forall>i j. on_ring ny nx i j \<longrightarrow> st' rb ! i ! j = st rb ! i ! j)"
proof -
  from assms(2) obtain b' where b': "velocity_term (st rb) rho dt (st ru) (st rv) dx = Inr b'"
    and st': "st' = st(rb := b')"
    by (auto simp: velocity_term_st_def ebind_eq_Inr)
  from b' have eq: "b' = assign_slice2 sl_inner sl_inner (st rb) (velocity_rhs rho dt (st ru) (st rv) dx)"
    by (auto simp: velocity_term_def split: if_splits)
  have "b' ! i ! j = st rb ! i ! j" if "on_ring ny nx i j" for i j
  proof -
    from that have ij: "i < ny" "j < nx" by (simp_all add: on_ring_def)
    show ?thesis
      unfolding eq nth_assign_inner[OF assms(1) ij]
      using on_ring_not_inner[OF that] by (rule if_not_P)
  qed
  moreover have "is_grid ny nx b'"
    unfolding eq using assms(1) by (rule is_grid_assign_slice2)
  ultimately show ?thesis using assms(3,4) by (simp add: st')
qed

text \<open>Witness of C9: a 3 by 3 run; the ring of \<open>b\<close> keeps its sevens.\<close>

theorem velocity_term_frame_witness:
  "\<exists>st'. velocity_term_st 0 1 1 1 2 1
      ((\<lambda>_. []) (0 := [[7, 7, 7], [7, 7, 7], [7, 7, 7]],
                  1 := [[0, 1, 0], [2, 0, 3], [0, 5, 0]],
                  2 := [[0, 1, 0], [4, 0, 6], [0, 3, 0]])) = Inr st' \<and>
     st' 1 = [[0, 1, 0], [2, 0, 3], [0, 5, 0]] \<and> st' 2 = [[0, 1, 0], [4, 0, 6], [0, 3, 0]] \<and>
     st' 0 ! 0 ! 0 = 7 \<and> st' 0 ! 0 ! 1 = 7 \<and> st' 0 ! 0 ! 2 = 7 \<and> st' 0 ! 1 ! 0 = 7 \<and>
     st' 0 ! 1 ! 2 = 7 \<and> st' 0 ! 2 ! 0 = 7 \<and> st' 0 ! 2 ! 1 = 7 \<and> st' 0 ! 2 ! 2 = 7"
proof -
  let ?st = "(\<lambda>_. []) (0 := [[7, 7, 7], [7, 7, 7], [7, 7, 7]],
                  1 := [[0, 1, 0], [2, 0, 3], [0, 5, 0]],
                  2 := [[0, 1, 0], [4, 0, 6], [0, 3, 0::real]]) :: store"
  have "velocity_term (?st 0) 1 1 (?st 1) (?st 2) 1 =
        Inr (assign_slice2 sl_inner sl_inner (?st 0) (velocity_rhs 1 1 (?st 1) (?st 2) 1))"
    by (rule velocity_term_ok[of 3 3]) simp_all
  then obtain st' where run: "velocity_term_st 0 1 1 1 2 1 ?st = Inr st'"
    by (simp add: velocity_term_st_def)
  have g: "is_grid 3 3 (?st 0)" by simp
  have r: "on_ring 3 3 0 0" "on_ring 3 3 0 1" "on_ring 3 3 0 2" "on_ring 3 3 1 0"
    "on_ring 3 3 1 2" "on_ring 3 3 2 0" "on_ring 3 3 2 1" "on_ring 3 3 2 2"
    by (simp_all add: on_ring_def)
  from velocity_term_frame[OF g run] r have
    "st' 1 = ?st 1 \<and> st' 2 = ?st 2 \<and>
     st' 0 ! 0 ! 0 = 7 \<and> st' 0 ! 0 ! 1 = 7 \<and> st' 0 ! 0 ! 2 = 7 \<and> st' 0 ! 1 ! 0 = 7 \<and>
     st' 0 ! 1 ! 2 = 7 \<and> st' 0 ! 2 ! 0 = 7 \<and> st' 0 ! 2 ! 1 = 7 \<and> st' 0 ! 2 ! 2 = 7"
    by simp
  with run show ?thesis by simp
qed

section \<open>The pressure solve of the CFD notebook\<close>

lemma py_index_nat: "k < n \<Longrightarrow> py_index n (int k) = Inr k"
  by (simp add: py_index_def)

lemma py_index_neg: "0 < k \<Longrightarrow> k \<le> n \<Longrightarrow> py_index n (- int k) = Inr (n - k)"
  by (auto simp: py_index_def nat_diff_distrib)

lemma py_index_Inr: "py_index n i = Inr k \<Longrightarrow> k < n"
  by (auto simp: py_index_def split: if_splits)

lemma py_index_consts:
  "py_index n 0 = (if 0 < n then Inr 0 else Inl IndexError)"
  "py_index n 1 = (if 1 < n then Inr 1 else Inl IndexError)"
  "py_index n (- 1) = (if 0 < n then Inr (n - 1) else Inl IndexError)"
  "py_index n (- 2) = (if 1 < n then Inr (n - 2) else Inl IndexError)"
  by (auto simp: py_index_def nat_diff_distrib)

lemma ncols_grid: "is_grid ny nx g \<Longrightarrow> 0 < ny \<Longrightarrow> ncols g = nx"
  by (cases g) (simp_all add: ncols_def is_grid_def)

lemma map2_map_same: "map2 f xs (map h xs) = map (\<lambda>x. f x (h x)) xs"
  by (induction xs) simp_all

lemma length_nth_update:
  "n < length xs \<Longrightarrow> length ((xs[k := y]) ! n) = (if n = k then length y else length (xs ! n))"
  by (cases "n = k") simp_all

lemma is_grid_copy_col: "is_grid ny nx g \<Longrightarrow> is_grid ny nx (copy_col g kd ks)"
  by (simp add: copy_col_def is_grid_def list_all_length)

lemma is_grid_const_col: "is_grid ny nx g \<Longrightarrow> is_grid ny nx (const_col g k c)"
  by (simp add: const_col_def is_grid_def list_all_length)

lemma is_grid_copy_row: "is_grid ny nx g \<Longrightarrow> ks < ny \<Longrightarrow> is_grid ny nx (copy_row g kd ks)"
  by (simp add: copy_row_def is_grid_def list_all_length length_nth_update)

lemma is_grid_const_row: "is_grid ny nx g \<Longrightarrow> is_grid ny nx (const_row g k c)"
  by (simp add: const_row_def is_grid_def list_all_length length_nth_update)

lemma nth_copy_col:
  "is_grid ny nx g \<Longrightarrow> i < ny \<Longrightarrow> j < nx \<Longrightarrow>
   copy_col g kd ks ! i ! j = (if j = kd then g ! i ! ks else g ! i ! j)"
  by (simp add: copy_col_def is_grid_length is_grid_nth nth_list_update)

lemma nth_const_col:
  "is_grid ny nx g \<Longrightarrow> i < ny \<Longrightarrow> j < nx \<Longrightarrow>
   const_col g k c ! i ! j = (if j = k then c else g ! i ! j)"
  by (simp add: const_col_def is_grid_length is_grid_nth nth_list_update)

lemma nth_copy_row:
  "is_grid ny nx g \<Longrightarrow> i < ny \<Longrightarrow>
   copy_row g kd ks ! i ! j = (if i = kd then g ! ks ! j else g ! i ! j)"
  by (simp add: copy_row_def is_grid_length nth_list_update)

lemma nth_const_row:
  "is_grid ny nx g \<Longrightarrow> i < ny \<Longrightarrow> j < nx \<Longrightarrow>
   const_row g k c ! i ! j = (if i = k then c else g ! i ! j)"
  by (simp add: const_row_def is_grid_length is_grid_nth nth_list_update)

lemma get_col_grid:
  "is_grid ny nx g \<Longrightarrow> 0 < ny \<Longrightarrow> py_index nx j = Inr k \<Longrightarrow> get_col g j = Inr (map (\<lambda>r. r ! k) g)"
  by (simp add: get_col_def ncols_grid)

lemma set_col_grid:
  "is_grid ny nx g \<Longrightarrow> 0 < ny \<Longrightarrow> py_index nx j = Inr k \<Longrightarrow>
   set_col g j (map (\<lambda>r. r ! ks) g) = Inr (copy_col g k ks)"
  by (simp add: set_col_def ncols_grid map2_map_same copy_col_def)

lemma fill_col_grid:
  "is_grid ny nx g \<Longrightarrow> 0 < ny \<Longrightarrow> py_index nx j = Inr k \<Longrightarrow> fill_col g j c = Inr (const_col g k c)"
  by (simp add: fill_col_def ncols_grid const_col_def)

lemma get_row_grid: "is_grid ny nx g \<Longrightarrow> py_index ny i = Inr k \<Longrightarrow> get_row g i = Inr (g ! k)"
  by (simp add: get_row_def is_grid_length)

lemma set_row_grid:
  "is_grid ny nx g \<Longrightarrow> py_index ny i = Inr k \<Longrightarrow> set_row g i (g ! ks) = Inr (copy_row g k ks)"
  by (simp add: set_row_def is_grid_length copy_row_def)

lemma fill_row_grid:
  "is_grid ny nx g \<Longrightarrow> py_index ny i = Inr k \<Longrightarrow> fill_row g i c = Inr (const_row g k c)"
  by (simp add: fill_row_def is_grid_length const_row_def)

lemma pressure_bc_eq:
  assumes "is_grid ny nx p"
  shows "pressure_bc p = (if 2 \<le> ny \<and> 2 \<le> nx then Inr (bc_grid ny nx p) else Inl IndexError)"
proof (cases "0 < ny \<and> 2 \<le> nx")
  case False
  then have "\<not> 1 < ncols p"
    using assms ncols_grid[OF assms] by (cases p) (auto simp: ncols_def is_grid_def)
  with False show ?thesis
    by (auto simp: pressure_bc_def get_col_def py_index_consts)
next
  case True
  then have ny: "0 < ny" and nx: "2 \<le> nx" by simp_all
  let ?q1 = "copy_col p 0 1"
  let ?q2 = "copy_col ?q1 (nx - 1) (nx - 2)"
  let ?q3 = "copy_row ?q2 0 1"
  have g1: "is_grid ny nx ?q1" using assms by (rule is_grid_copy_col)
  have g2: "is_grid ny nx ?q2" using g1 by (rule is_grid_copy_col)
  have ix: "py_index nx 1 = Inr 1" "py_index nx 0 = Inr 0" "py_index nx (- 2) = Inr (nx - 2)"
    "py_index nx (- 1) = Inr (nx - 1)"
    using nx by (simp_all add: py_index_consts)
  note cols = get_col_grid[OF assms ny ix(1)] set_col_grid[OF assms ny ix(2)]
    get_col_grid[OF g1 ny ix(3)] set_col_grid[OF g1 ny ix(4)]
  have c: "pressure_bc p =
    ebind (get_row ?q2 1) (\<lambda>r1. ebind (set_row ?q2 0 r1) (\<lambda>p. fill_row p (- 1) 0))"
    unfolding pressure_bc_def by (simp only: cols ebind_simps)
  show ?thesis
  proof (cases "2 \<le> ny")
    case False
    then have "py_index ny 1 = Inl IndexError" by (simp add: py_index_consts)
    then show ?thesis using False is_grid_length[OF g2] by (simp add: c get_row_def)
  next
    case t: True
    then have iy: "py_index ny 1 = Inr 1" "py_index ny 0 = Inr 0" "py_index ny (- 1) = Inr (ny - 1)"
      by (simp_all add: py_index_consts)
    have g3: "is_grid ny nx ?q3" using g2 t by (simp add: is_grid_copy_row)
    note rows = get_row_grid[OF g2 iy(1)] set_row_grid[OF g2 iy(2)] fill_row_grid[OF g3 iy(3)]
    show ?thesis using t nx unfolding c by (simp only: rows ebind_simps bc_grid_def) simp
  qed
qed

lemma is_grid_bc_grid:
  assumes "is_grid ny nx p" "2 \<le> ny"
  shows "is_grid ny nx (bc_grid ny nx p)"
  unfolding bc_grid_def using assms
  by (intro is_grid_const_row is_grid_copy_row is_grid_copy_col) simp_all

lemma nth_bc_grid:
  assumes "is_grid ny nx p" "2 \<le> ny" "2 \<le> nx" "i < ny" "j < nx"
  shows "bc_grid ny nx p ! i ! j =
         (if i = ny - 1 then 0
          else if j = 0 \<or> (j = nx - 1 \<and> nx = 2) then p ! (if i = 0 then 1 else i) ! 1
          else if j = nx - 1 then p ! (if i = 0 then 1 else i) ! (nx - 2)
          else p ! (if i = 0 then 1 else i) ! j)"
proof -
  let ?q1 = "copy_col p 0 1"
  let ?q2 = "copy_col ?q1 (nx - 1) (nx - 2)"
  let ?q3 = "copy_row ?q2 0 1"
  have g1: "is_grid ny nx ?q1" using assms(1) by (rule is_grid_copy_col)
  have g2: "is_grid ny nx ?q2" using g1 by (rule is_grid_copy_col)
  have g3: "is_grid ny nx ?q3" using g2 assms(2) by (simp add: is_grid_copy_row)
  have one: "1 < ny" and nx2: "nx - 2 < nx" using assms(2,3) by simp_all
  have e3: "bc_grid ny nx p ! i ! j = (if i = ny - 1 then 0 else ?q3 ! i ! j)"
    unfolding bc_grid_def by (rule nth_const_row[OF g3 assms(4,5)])
  have e2: "?q3 ! i ! j = (if i = 0 then ?q2 ! 1 ! j else ?q2 ! i ! j)"
    by (rule nth_copy_row[OF g2 assms(4)])
  have e1: "?q2 ! k ! j = (if j = nx - 1 then ?q1 ! k ! (nx - 2) else ?q1 ! k ! j)"
    if "k < ny" for k
    by (rule nth_copy_col[OF g1 that assms(5)])
  have e0: "?q1 ! k ! l = (if l = 0 then p ! k ! 1 else p ! k ! l)"
    if "k < ny" "l < nx" for k l
    by (rule nth_copy_col[OF assms(1) that])
  show ?thesis
    unfolding e3 e2 e1[OF one] e1[OF assms(4)] e0[OF one nx2] e0[OF one assms(5)]
      e0[OF assms(4) nx2] e0[OF assms(4,5)]
    using assms(2-) by auto
qed

lemma is_grid_relax_rhs:
  assumes "is_grid ny nx pn" "is_grid ny nx b"
  shows "is_grid (ny - 2) (nx - 2) (relax_rhs pn b)"
  unfolding relax_rhs_def
  by (intro is_grid_np is_grid_slice2[OF _ _ assms(1)] is_grid_slice2[OF _ _ assms(2)])
    (rule stencil_inner stencil_from2 stencil_upto2)+

lemma nth_relax_rhs:
  assumes "is_grid ny nx pn" "is_grid ny nx b" "i < ny - 2" "j < nx - 2"
  shows "relax_rhs pn b ! i ! j = relaxed_cell pn b (i + 1) (j + 1)"
  using assms
  by (simp add: relax_rhs_def relaxed_cell_def np_defs slice2_def is_grid_length is_grid_nth)

lemma relax_eq:
  assumes "is_grid ny nx pn" "is_grid ny nx b"
  shows "relax pn b p = Inr (assign_slice2 sl_inner sl_inner p (relax_rhs pn b))"
proof -
  have "same_shape (slice2 sl_inner sl_inner pn) (slice2 sl_inner sl_inner b)"
    using assms by (blast intro: same_shapeI is_grid_slice2 stencil_inner)
  then show ?thesis by (simp add: relax_def)
qed

lemma relax_Inr:
  "relax pn b p = Inr q \<Longrightarrow> q = assign_slice2 sl_inner sl_inner p (relax_rhs pn b)"
  by (auto simp: relax_def split: if_splits)

lemma interior_iff: "interior ny nx i j \<longleftrightarrow> 1 \<le> i \<and> i < ny - 1 \<and> 1 \<le> j \<and> j < nx - 1"
  by (auto simp: interior_def)

lemma nth_relax:
  assumes "is_grid ny nx p" "is_grid ny nx b" "i < ny" "j < nx"
  shows "assign_slice2 sl_inner sl_inner p (relax_rhs p b) ! i ! j =
         (if interior ny nx i j then relaxed_cell p b i j else p ! i ! j)"
proof (cases "interior ny nx i j")
  case True
  then have ij: "1 \<le> i \<and> i < ny - 1 \<and> 1 \<le> j \<and> j < nx - 1" "i - 1 < ny - 2" "j - 1 < nx - 2"
    "i - 1 + 1 = i" "j - 1 + 1 = j"
    by (auto simp: interior_def)
  show ?thesis
    unfolding nth_assign_inner[OF assms(1,3,4)] nth_relax_rhs[OF assms(1,2) ij(2,3)] ij(4,5)
    using ij(1) True by simp
next
  case False
  then have nc: "\<not> (1 \<le> i \<and> i < ny - 1 \<and> 1 \<le> j \<and> j < nx - 1)"
    by (simp add: interior_iff)
  show ?thesis
    unfolding nth_assign_inner[OF assms(1,3,4)] if_not_P[OF nc] if_not_P[OF False]
    by (rule refl)
qed

lemma sweep_eq:
  assumes "is_grid ny nx p" "is_grid ny nx b"
  shows "sweep b p =
         (if 2 \<le> ny \<and> 2 \<le> nx
          then Inr (bc_grid ny nx (assign_slice2 sl_inner sl_inner p (relax_rhs p b)))
          else Inl IndexError)"
  using pressure_bc_eq[OF is_grid_assign_slice2[OF assms(1)]]
  by (simp add: sweep_def relax_eq[OF assms])

lemma sweep_Inr:
  assumes "is_grid ny nx p" "sweep b p = Inr q"
  shows "2 \<le> ny \<and> 2 \<le> nx \<and> q = bc_grid ny nx (assign_slice2 sl_inner sl_inner p (relax_rhs p b))"
proof -
  from assms(2) obtain r where r: "relax p b p = Inr r" and q: "pressure_bc r = Inr q"
    by (auto simp: sweep_def ebind_eq_Inr)
  from r have r': "r = assign_slice2 sl_inner sl_inner p (relax_rhs p b)" by (rule relax_Inr)
  have "is_grid ny nx r" unfolding r' using assms(1) by (rule is_grid_assign_slice2)
  from pressure_bc_eq[OF this] q show ?thesis by (auto simp: r' split: if_splits)
qed

lemma is_grid_sweep:
  assumes "is_grid ny nx p" "sweep b p = Inr q"
  shows "is_grid ny nx q"
  using sweep_Inr[OF assms] is_grid_bc_grid[OF is_grid_assign_slice2[OF assms(1)]]
  by simp

lemma sweep_boundary:
  assumes "is_grid ny nx p" "sweep b p = Inr q"
  shows "(i < ny \<longrightarrow> q ! i ! 0 = q ! i ! 1) \<and> (j < nx \<longrightarrow> q ! (ny - 1) ! j = 0)"
proof -
  let ?r = "assign_slice2 sl_inner sl_inner p (relax_rhs p b)"
  from sweep_Inr[OF assms] have n: "2 \<le> ny" "2 \<le> nx" and q: "q = bc_grid ny nx ?r"
    by simp_all
  have g: "is_grid ny nx ?r" using assms(1) by (rule is_grid_assign_slice2)
  have z: "0 < nx" "1 < nx" "ny - 1 < ny" using n by simp_all
  have "q ! i ! 0 = q ! i ! 1" if "i < ny"
    unfolding q nth_bc_grid[OF g n that z(1)] nth_bc_grid[OF g n that z(2)]
    using n by auto
  moreover have "q ! (ny - 1) ! j = 0" if "j < nx"
    unfolding q nth_bc_grid[OF g n z(3) that] by simp
  ultimately show ?thesis by blast
qed

lemma sweep_interior_cell:
  assumes "is_grid ny nx p" "is_grid ny nx b" "sweep b p = Inr q" "interior ny nx i j"
  shows "q ! i ! j = relaxed_cell p b i j"
proof -
  let ?r = "assign_slice2 sl_inner sl_inner p (relax_rhs p b)"
  from sweep_Inr[OF assms(1,3)] have n: "2 \<le> ny" "2 \<le> nx" and q: "q = bc_grid ny nx ?r"
    by simp_all
  have g: "is_grid ny nx ?r" using assms(1) by (rule is_grid_assign_slice2)
  from assms(4) have ij: "i < ny" "j < nx" "i \<noteq> 0" "i \<noteq> ny - 1" "j \<noteq> 0" "j \<noteq> nx - 1"
    by (auto simp: interior_def)
  have "q ! i ! j = ?r ! i ! j"
    unfolding q nth_bc_grid[OF g n ij(1,2)] using ij by simp
  also have "\<dots> = relaxed_cell p b i j"
    unfolding nth_relax[OF assms(1,2) ij(1,2)] using assms(4) by simp
  finally show ?thesis .
qed

lemmas eval_defs =
  sweep_def relax_def relax_rhs_def same_shape_def slice2_def py_slice_def slice_start_def
  slice_stop_def clamp_idx_def sl_inner_def sl_from2_def sl_upto2_def assign_slice2_def
  assign_slice_def np_defs pressure_bc_def get_col_def set_col_def get_row_def set_row_def
  fill_row_def fill_col_def py_index_def ncols_def zeros_def Let_def upt_rec numeral_3_eq_3
  numeral_2_eq_2

lemma sweep_decay:
  "sweep (zeros 3 3) [[c, c, c], [c, c, c], [0, 0, 0]] =
   Inr [[3 / 4 * c, 3 / 4 * c, 3 / 4 * c], [3 / 4 * c, 3 / 4 * c, 3 / 4 * c], [0, 0, 0]]"
  by (simp add: eval_defs)

lemma sweep_ones:
  "sweep (zeros 3 3) [[1, 1, 1], [1, 1, 1], [1, 1, 1]] = Inr [[1, 1, 1], [1, 1, 1], [0, 0, 0]]"
  by (simp add: eval_defs)

lemmas pp_while_induct = pp_while.raw_induct[rotated 1, consumes 1]

lemma f_gt_sqrt:
  assumes "0 \<le> t" "0 \<le> x"
  shows "f_gt (np_sqrt (Fin x)) t \<longleftrightarrow> t\<^sup>2 < x"
proof -
  have "t < sqrt x \<longleftrightarrow> sqrt (t\<^sup>2) < sqrt x" using assms(1) by simp
  also have "\<dots> \<longleftrightarrow> t\<^sup>2 < x" by (rule real_sqrt_less_iff)
  finally show ?thesis using assms(2) by simp
qed

lemma iter_diff_ones:
  "iter_diff_of [[1, 1, 1], [1, 1, 1], [0, 0, 0]] [[1, 1, 1], [1, 1, 1], [1, 1, 1]] =
   np_sqrt (Fin (1 / 3))"
  by (simp add: iter_diff_of_def np_sum_def np_defs np_div_def)

lemma iter_diff_decay:
  assumes c: "c \<noteq> 0"
  shows "iter_diff_of
     [[3 / 4 * c, 3 / 4 * c, 3 / 4 * c], [3 / 4 * c, 3 / 4 * c, 3 / 4 * c], [0, 0, 0]]
     [[c, c, c], [c, c, c], [0, 0, 0]] = Fin (1 / 4)"
proof -
  have num: "np_sum (np_sq (np_sub
      [[3 / 4 * c, 3 / 4 * c, 3 / 4 * c], [3 / 4 * c, 3 / 4 * c, 3 / 4 * c], [0, 0, 0]]
      [[c, c, c], [c, c, c], [0, 0, 0]])) = 6 * (c / 4)\<^sup>2"
    by (simp add: np_sum_def np_defs power2_eq_square)
  have den: "np_sum (np_sq [[c, c, c], [c, c, c], [0, 0, 0]]) = 6 * c\<^sup>2"
    by (simp add: np_sum_def np_defs power2_eq_square)
  have q: "(6 * (c / 4)\<^sup>2) / (6 * c\<^sup>2) = (1 / 4)\<^sup>2"
    using c by (simp add: power2_eq_square field_simps)
  have "np_div (6 * (c / 4)\<^sup>2) (6 * c\<^sup>2) = Fin ((1 / 4)\<^sup>2)"
    unfolding np_div_def q using c by simp
  then show ?thesis
    unfolding iter_diff_of_def num den by simp
qed

lemma not_absorbs_small: "\<bar>t\<bar> < 2 ^ 53 \<Longrightarrow> \<not> absorbs_one t"
  by (simp add: absorbs_one_def)

lemma plus_one_gt: "t < plus_one t \<longleftrightarrow> \<not> absorbs_one t"
  by (simp add: plus_one_def)

lemma f_gt_init: "f_gt (Fin (plus_one t)) t \<longleftrightarrow> \<not> absorbs_one t"
  by (simp add: plus_one_gt)

lemma plus_one_small: "\<bar>t\<bar> < 2 ^ 53 \<Longrightarrow> plus_one t = t + 1"
  by (simp add: plus_one_def not_absorbs_small)

lemma absorbs_1e16: "absorbs_one 10000000000000000"
  by (simp add: absorbs_one_def)

lemma not_absorbs_consts:
  "\<not> absorbs_one (1 / 10)" "\<not> absorbs_one (3 / 10)" "\<not> absorbs_one 1"
  "\<not> absorbs_one (1 / 10000)" "\<not> absorbs_one (4 / 5)"
  by (simp_all add: not_absorbs_small)

lemma pp_while_unfold:
  "pp_while b t p d =
     (if f_gt d t then
        (case sweep b p of
           Inl e \<Rightarrow> Some (Inl e)
         | Inr p' \<Rightarrow> pp_while b t p' (iter_diff_of p' p))
      else Some (Inr (p, d)))"
  by (subst pp_while.simps) (simp split: sum.split)

lemma pressure_poisson_start:
  "\<not> absorbs_one t \<Longrightarrow>
   pressure_poisson p b t =
     (case sweep b p of
        Inl e \<Rightarrow> Some (Inl e)
      | Inr p' \<Rightarrow> map_option (map_sum id fst) (pp_while b t p' (iter_diff_of p' p)))"
  unfolding pressure_poisson_def
  by (subst pp_while_unfold) (simp add: plus_one_gt split: sum.split)

lemma pressure_poisson_absorbed: "absorbs_one t \<Longrightarrow> pressure_poisson p b t = Some (Inr p)"
  unfolding pressure_poisson_def
  by (subst pp_while_unfold) (simp add: plus_one_gt)

lemma pressure_poisson_Some:
  "pressure_poisson p b t = Some (Inr q) \<longleftrightarrow>
   (\<exists>d. pp_while b t p (Fin (plus_one t)) = Some (Inr (q, d)))"
  by (cases "pp_while b t p (Fin (plus_one t))")
    (auto simp: pressure_poisson_def map_sum_def split: sum.splits)

lemma pressure_poisson_None:
  "pressure_poisson p b t = None \<longleftrightarrow> pp_while b t p (Fin (plus_one t)) = None"
  by (simp add: pressure_poisson_def)

lemma pp_while_sweeps_aux:
  "pp_while b t p d = Some y \<Longrightarrow> y = Inr (q, d') \<Longrightarrow>
   \<exists>k. sweeps k b p = Inr q \<and> (f_gt d t \<longrightarrow> 0 < k)"
proof (induction arbitrary: q d' rule: pp_while_induct)
  case (1 f b t p d y)
  show ?case
  proof (cases "f_gt d t")
    case False
    with 1(2,3) have "q = p" by simp
    then have "sweeps 0 b p = Inr q" by simp
    with False show ?thesis by blast
  next
    case True
    show ?thesis
    proof (cases "sweep b p")
      case (Inl e)
      with True 1(2,3) show ?thesis by simp
    next
      case (Inr p')
      with True 1(2) have "f b t p' (iter_diff_of p' p) = Some y" by simp
      from 1(1)[OF this 1(3)] obtain k where "sweeps k b p' = Inr q" by blast
      with Inr have "sweeps (Suc k) b p = Inr q" by simp
      then show ?thesis by blast
    qed
  qed
qed

lemma pp_while_diverges_aux:
  "pp_while b t p d = Some y \<Longrightarrow> b = zeros 3 3 \<Longrightarrow> t = 1 / 10 \<Longrightarrow> f_gt d t \<Longrightarrow>
   p = [[1, 1, 1], [1, 1, 1], [1, 1, 1]] \<or> (\<exists>c. c \<noteq> 0 \<and> p = [[c, c, c], [c, c, c], [0, 0, 0]])
   \<Longrightarrow> False"
proof (induction rule: pp_while_induct)
  case (1 f b t p d y)
  from 1(6) show ?case
  proof
    assume p: "p = [[1, 1, 1], [1, 1, 1], [1, 1, 1]]"
    let ?p' = "[[1, 1, 1], [1, 1, 1], [0, 0, 0::real]]"
    have d: "f_gt (iter_diff_of ?p' p) t"
      unfolding p 1(4) iter_diff_ones
      by (subst f_gt_sqrt) (simp_all add: power2_eq_square)
    from 1(2) have "f b t ?p' (iter_diff_of ?p' p) = Some y"
      using 1(5) by (simp add: p 1(3) sweep_ones)
    moreover have "\<exists>c. c \<noteq> 0 \<and> ?p' = [[c, c, c], [c, c, c], [0, 0, 0]]"
      by (intro exI[of _ 1]) simp
    ultimately show False using 1(1)[OF _ 1(3,4) d] by blast
  next
    assume "\<exists>c. c \<noteq> 0 \<and> p = [[c, c, c], [c, c, c], [0, 0, 0]]"
    then obtain c where c: "c \<noteq> 0" and p: "p = [[c, c, c], [c, c, c], [0, 0, 0]]" by blast
    let ?p' = "[[3 / 4 * c, 3 / 4 * c, 3 / 4 * c], [3 / 4 * c, 3 / 4 * c, 3 / 4 * c], [0, 0, 0]]"
    have d: "f_gt (iter_diff_of ?p' p) t"
      unfolding p iter_diff_decay[OF c] 1(4) by simp
    from 1(2) have "f b t ?p' (iter_diff_of ?p' p) = Some y"
      using 1(5) by (simp add: p 1(3) sweep_decay)
    moreover have "\<exists>c'. c' \<noteq> 0 \<and> ?p' = [[c', c', c'], [c', c', c'], [0, 0, 0]]"
      using c by (intro exI[of _ "3 / 4 * c"]) simp
    ultimately show False using 1(1)[OF _ 1(3,4) d] by blast
  qed
qed

text \<open>
  C1 asks that the solver returns after at most 501 sweeps for every input. The numpy
  version of the CFD notebook does not: started on the 3 by 3 pressure grid of ones with
  a zero source and the tolerance 0.1 its loop does not end. Every sweep there multiplies
  the six cells of the upper two rows by 3/4, so the relative change is 1/4 at every check
  and stays above the tolerance; and since \<^verbatim>\<open>n\<close> is set to 0 at the top of every
  iteration, the test \<^verbatim>\<open>n == 500\<close> never holds. (Without end in exact arithmetic: in
  float64 the squares of the changes underflow to 0 in the end, and the loop stops after
  1293 sweeps, far beyond the 501 of the claim.)
\<close>

theorem pressure_poisson_no_cap:
  "pressure_poisson [[1, 1, 1], [1, 1, 1], [1, 1, 1]] (zeros 3 3) (1 / 10) = None"
proof (cases "pressure_poisson [[1, 1, 1], [1, 1, 1], [1, 1, 1]] (zeros 3 3) (1 / 10)")
  case None
  then show ?thesis .
next
  case (Some y)
  then obtain z where
    "pp_while (zeros 3 3) (1 / 10) [[1, 1, 1], [1, 1, 1], [1, 1, 1]] (Fin (plus_one (1 / 10))) = Some z"
    by (auto simp: pressure_poisson_def)
  from pp_while_diverges_aux[OF this refl refl] show ?thesis
    by (simp add: plus_one_gt not_absorbs_consts)
qed

section \<open>The jitted pressure solve\<close>

lemma py_index_shift:
  "k + 1 < n \<Longrightarrow> py_index n (int k + 1) = Inr (k + 1)"
  "1 \<le> k \<Longrightarrow> k \<le> n \<Longrightarrow> py_index n (int k - 1) = Inr (k - 1)"
  by (auto simp: py_index_def nat_diff_distrib nat_add_distrib)

lemma get2_grid:
  "is_grid ny nx g \<Longrightarrow> py_index ny a = Inr i \<Longrightarrow> py_index nx c = Inr j \<Longrightarrow>
   get2 g a c = Inr (g ! i ! j)"
  using py_index_Inr[of ny a i]
  by (simp add: get2_def is_grid_length is_grid_nth)

lemma set2_grid:
  "is_grid ny nx g \<Longrightarrow> py_index ny a = Inr i \<Longrightarrow> py_index nx c = Inr j \<Longrightarrow>
   set2 g a c x = Inr (upd2 g i j x)"
  using py_index_Inr[of ny a i]
  by (simp add: set2_def upd2_def is_grid_length is_grid_nth)

lemma is_grid_upd2: "is_grid ny nx g \<Longrightarrow> is_grid ny nx (upd2 g i j x)"
  by (simp add: upd2_def is_grid_def list_all_length length_nth_update)

lemma nth_upd2:
  "is_grid ny nx g \<Longrightarrow> r < ny \<Longrightarrow> c < nx \<Longrightarrow>
   upd2 g i j x ! r ! c = (if r = i \<and> c = j then x else g ! r ! c)"
  by (cases "r = i"; cases "c = j") (simp_all add: upd2_def is_grid_length is_grid_nth)

lemma relax_cell_eq:
  assumes "is_grid ny nx pn" "is_grid ny nx b" "is_grid ny nx p" "interior ny nx i j"
  shows "relax_cell pn b i j p = Inr (upd2 p i j (relaxed_cell pn b i j))"
proof -
  from assms(4) have ij: "i + 1 < ny" "1 \<le> i" "i \<le> ny" "i < ny" "j + 1 < nx" "1 \<le> j" "j \<le> nx" "j < nx"
    by (auto simp: interior_def)
  note ix = py_index_shift(1)[OF ij(1)] py_index_shift(2)[OF ij(2,3)] py_index_nat[OF ij(4)]
    py_index_shift(1)[OF ij(5)] py_index_shift(2)[OF ij(6,7)] py_index_nat[OF ij(8)]
  note gets = get2_grid[OF assms(1) ix(1) ix(6)] get2_grid[OF assms(1) ix(2) ix(6)]
    get2_grid[OF assms(1) ix(3) ix(4)] get2_grid[OF assms(1) ix(3) ix(5)]
    get2_grid[OF assms(2) ix(3) ix(6)] set2_grid[OF assms(3) ix(3) ix(6)]
  show ?thesis
    unfolding relax_cell_def gets ebind_simps relaxed_cell_def
    by (simp add: algebra_simps)
qed

lemma relax_row:
  assumes "is_grid ny nx pn" "is_grid ny nx b" "1 \<le> i" "i + 1 < ny"
  shows "is_grid ny nx p \<Longrightarrow> list_all (\<lambda>j. 1 \<le> j \<and> j + 1 < nx) js \<Longrightarrow>
     \<exists>q. for_each js (relax_cell pn b i) p = Inr q \<and> is_grid ny nx q \<and>
       (\<forall>r c. r < ny \<longrightarrow> c < nx \<longrightarrow>
          q ! r ! c = (if r = i \<and> c \<in> set js then relaxed_cell pn b r c else p ! r ! c))"
proof (induction js arbitrary: p)
  case Nil
  then show ?case by simp
next
  case (Cons j js)
  from Cons.prems(2) assms(3,4) have int: "interior ny nx i j" by (simp add: interior_def)
  let ?p1 = "upd2 p i j (relaxed_cell pn b i j)"
  have step: "relax_cell pn b i j p = Inr ?p1"
    using assms(1,2) Cons.prems(1) int by (rule relax_cell_eq)
  have g1: "is_grid ny nx ?p1" using Cons.prems(1) by (rule is_grid_upd2)
  from Cons.prems(2) have rest: "list_all (\<lambda>j. 1 \<le> j \<and> j + 1 < nx) js" by simp
  from Cons.IH[OF g1 rest] obtain q where q: "for_each js (relax_cell pn b i) ?p1 = Inr q"
    "is_grid ny nx q"
    "\<And>r c. r < ny \<Longrightarrow> c < nx \<Longrightarrow>
       q ! r ! c = (if r = i \<and> c \<in> set js then relaxed_cell pn b r c else ?p1 ! r ! c)"
    by blast
  have "q ! r ! c = (if r = i \<and> c \<in> set (j # js) then relaxed_cell pn b r c else p ! r ! c)"
    if "r < ny" "c < nx" for r c
    unfolding q(3)[OF that] nth_upd2[OF Cons.prems(1) that] by auto
  with q(1,2) step show ?case by simp
qed

lemma relax_rows:
  assumes "is_grid ny nx pn" "is_grid ny nx b" "list_all (\<lambda>j. 1 \<le> j \<and> j + 1 < nx) js"
  shows "is_grid ny nx p \<Longrightarrow> list_all (\<lambda>i. 1 \<le> i \<and> i + 1 < ny) is \<Longrightarrow>
     \<exists>q. for_each is (\<lambda>i. for_each js (relax_cell pn b i)) p = Inr q \<and> is_grid ny nx q \<and>
       (\<forall>r c. r < ny \<longrightarrow> c < nx \<longrightarrow>
          q ! r ! c = (if r \<in> set is \<and> c \<in> set js then relaxed_cell pn b r c else p ! r ! c))"
proof (induction "is" arbitrary: p)
  case Nil
  then show ?case by simp
next
  case (Cons i "is")
  from Cons.prems(2) have i: "1 \<le> i" "i + 1 < ny" and rest: "list_all (\<lambda>i. 1 \<le> i \<and> i + 1 < ny) is"
    by simp_all
  from relax_row[OF assms(1,2) i Cons.prems(1) assms(3)] obtain p1 where
    p1: "for_each js (relax_cell pn b i) p = Inr p1" "is_grid ny nx p1"
    "\<And>r c. r < ny \<Longrightarrow> c < nx \<Longrightarrow>
       p1 ! r ! c = (if r = i \<and> c \<in> set js then relaxed_cell pn b r c else p ! r ! c)"
    by blast
  from Cons.IH[OF p1(2) rest] obtain q where
    q: "for_each is (\<lambda>i. for_each js (relax_cell pn b i)) p1 = Inr q" "is_grid ny nx q"
    "\<And>r c. r < ny \<Longrightarrow> c < nx \<Longrightarrow>
       q ! r ! c = (if r \<in> set is \<and> c \<in> set js then relaxed_cell pn b r c else p1 ! r ! c)"
    by blast
  have "q ! r ! c = (if r \<in> set (i # is) \<and> c \<in> set js then relaxed_cell pn b r c else p ! r ! c)"
    if "r < ny" "c < nx" for r c
    unfolding q(3)[OF that] p1(3)[OF that] by auto
  with q(1,2) p1(1) show ?case by simp
qed

lemma relax_jit_eq:
  assumes "is_grid ny nx p" "is_grid ny nx b"
  shows "relax_jit p b p = Inr (assign_slice2 sl_inner sl_inner p (relax_rhs p b))"
proof -
  have len: "length b = ny" using assms(2) by (rule is_grid_length)
  have js: "list_all (\<lambda>j. 1 \<le> j \<and> j + 1 < nx) [1..<ncols b - 1]"
  proof (cases "0 < ny")
    case True
    then show ?thesis using ncols_grid[OF assms(2)] by (auto simp: list_all_iff)
  next
    case False
    with len have "b = []" by simp
    then show ?thesis by (simp add: ncols_def)
  qed
  have rows: "list_all (\<lambda>i. 1 \<le> i \<and> i + 1 < ny) [1..<length b - 1]"
    using len by (auto simp: list_all_iff)
  from relax_rows[OF assms(1,2) js assms(1) rows] obtain q where
    q: "relax_jit p b p = Inr q" "is_grid ny nx q"
    "\<And>r c. r < ny \<Longrightarrow> c < nx \<Longrightarrow>
       q ! r ! c = (if r \<in> set [1..<length b - 1] \<and> c \<in> set [1..<ncols b - 1]
                    then relaxed_cell p b r c else p ! r ! c)"
    unfolding relax_jit_def by blast
  have "q = assign_slice2 sl_inner sl_inner p (relax_rhs p b)"
  proof (rule grid_eqI[OF q(2) is_grid_assign_slice2[OF assms(1)]])
    fix r c assume rc: "r < ny" "c < nx"
    then have nc: "ncols b = nx" using ncols_grid[OF assms(2)] by simp
    show "q ! r ! c = assign_slice2 sl_inner sl_inner p (relax_rhs p b) ! r ! c"
      unfolding q(3)[OF rc] nth_relax[OF assms rc] len nc
      by (auto simp: interior_def)
  qed
  with q(1) show ?thesis by simp
qed

lemma bc_rows_body:
  assumes "is_grid ny nx p" "2 \<le> nx" "i < ny"
  shows "ebind (get2 p (int i) 1) (\<lambda>x. ebind (set2 p (int i) 0 x) (\<lambda>p. set2 p (int i) (- 1) 0))
         = Inr (upd2 (upd2 p i 0 (p ! i ! 1)) i (nx - 1) 0)"
proof -
  have ix: "py_index nx 1 = Inr 1" "py_index nx 0 = Inr 0" "py_index nx (- 1) = Inr (nx - 1)"
    using assms(2) by (simp_all add: py_index_consts)
  note iy = py_index_nat[OF assms(3)]
  have g1: "is_grid ny nx (upd2 p i 0 (p ! i ! 1))" using assms(1) by (rule is_grid_upd2)
  show ?thesis
    unfolding get2_grid[OF assms(1) iy ix(1)] ebind_simps set2_grid[OF assms(1) iy ix(2)]
      set2_grid[OF g1 iy ix(3)]
    by (rule refl)
qed

lemma bc_rows_loop:
  assumes "2 \<le> nx"
  shows "is_grid ny nx p \<Longrightarrow> list_all (\<lambda>i. i < ny) is \<Longrightarrow> distinct is \<Longrightarrow>
     \<exists>q. for_each is (\<lambda>i p. ebind (get2 p (int i) 1) (\<lambda>x. ebind (set2 p (int i) 0 x)
            (\<lambda>p. set2 p (int i) (- 1) 0))) p = Inr q \<and> is_grid ny nx q \<and>
       (\<forall>r c. r < ny \<longrightarrow> c < nx \<longrightarrow>
          q ! r ! c = (if r \<in> set is
                       then (if c = nx - 1 then 0 else if c = 0 then p ! r ! 1 else p ! r ! c)
                       else p ! r ! c))"
proof (induction "is" arbitrary: p)
  case Nil
  then show ?case by simp
next
  case (Cons i "is")
  let ?body = "\<lambda>i p. ebind (get2 p (int i) 1) (\<lambda>x. ebind (set2 p (int i) 0 x)
            (\<lambda>p. set2 p (int i) (- 1) 0))"
  from Cons.prems have i: "i < ny" "i \<notin> set is" and rest: "list_all (\<lambda>i. i < ny) is" "distinct is"
    by simp_all
  let ?p0 = "upd2 p i 0 (p ! i ! 1)"
  let ?p1 = "upd2 ?p0 i (nx - 1) 0"
  have step: "?body i p = Inr ?p1"
    using Cons.prems(1) assms i(1) by (rule bc_rows_body)
  have g0: "is_grid ny nx ?p0" using Cons.prems(1) by (rule is_grid_upd2)
  have g1: "is_grid ny nx ?p1" using g0 by (rule is_grid_upd2)
  have one: "1 < nx" using assms by simp
  from Cons.IH[OF g1 rest] obtain q where q: "for_each is ?body ?p1 = Inr q" "is_grid ny nx q"
    "\<And>r c. r < ny \<Longrightarrow> c < nx \<Longrightarrow>
       q ! r ! c = (if r \<in> set is
                    then (if c = nx - 1 then 0 else if c = 0 then ?p1 ! r ! 1 else ?p1 ! r ! c)
                    else ?p1 ! r ! c)"
    by blast
  have "q ! r ! c = (if r \<in> set (i # is)
                     then (if c = nx - 1 then 0 else if c = 0 then p ! r ! 1 else p ! r ! c)
                     else p ! r ! c)"
    if "r < ny" "c < nx" for r c
    unfolding q(3)[OF that] nth_upd2[OF g0 that] nth_upd2[OF Cons.prems(1) that]
      nth_upd2[OF g0 that(1) one] nth_upd2[OF Cons.prems(1) that(1) one]
    using i(2) assms by auto
  with q(1,2) step show ?case by simp
qed

lemma bc_rows_jit_cells:
  assumes "is_grid ny nx p" "is_grid ny nx b" "2 \<le> nx"
  shows "\<exists>q. bc_rows_jit b p = Inr q \<and> is_grid ny nx q \<and>
       (\<forall>r c. r < ny \<longrightarrow> c < nx \<longrightarrow>
          q ! r ! c = (if c = nx - 1 then 0 else if c = 0 then p ! r ! 1 else p ! r ! c))"
proof -
  have "list_all (\<lambda>i. i < ny) [0..<length b]" "distinct [0..<length b]"
    using is_grid_length[OF assms(2)] by (simp_all add: list_all_iff)
  from bc_rows_loop[OF assms(3,1) this] show ?thesis
    unfolding bc_rows_jit_def using is_grid_length[OF assms(2)] by auto
qed

lemma bc_cols_body:
  assumes "is_grid ny nx p" "2 \<le> ny" "j < nx"
  shows "ebind (get2 p 1 (int j)) (\<lambda>x. ebind (set2 p 0 (int j) x) (\<lambda>p.
           ebind (get2 p (- 2) (int j)) (\<lambda>y. set2 p (- 1) (int j) y)))
         = Inr (upd2 (upd2 p 0 j (p ! 1 ! j)) (ny - 1) j (upd2 p 0 j (p ! 1 ! j) ! (ny - 2) ! j))"
proof -
  have iy: "py_index ny 1 = Inr 1" "py_index ny 0 = Inr 0" "py_index ny (- 2) = Inr (ny - 2)"
    "py_index ny (- 1) = Inr (ny - 1)"
    using assms(2) by (simp_all add: py_index_consts)
  note ix = py_index_nat[OF assms(3)]
  have g1: "is_grid ny nx (upd2 p 0 j (p ! 1 ! j))" using assms(1) by (rule is_grid_upd2)
  show ?thesis
    unfolding get2_grid[OF assms(1) iy(1) ix] ebind_simps set2_grid[OF assms(1) iy(2) ix]
      get2_grid[OF g1 iy(3) ix] set2_grid[OF g1 iy(4) ix]
    by (rule refl)
qed

lemma bc_cols_loop:
  assumes "2 \<le> ny"
  shows "is_grid ny nx p \<Longrightarrow> list_all (\<lambda>j. j < nx) js \<Longrightarrow> distinct js \<Longrightarrow>
     \<exists>q. for_each js (\<lambda>j p. ebind (get2 p 1 (int j)) (\<lambda>x. ebind (set2 p 0 (int j) x) (\<lambda>p.
           ebind (get2 p (- 2) (int j)) (\<lambda>y. set2 p (- 1) (int j) y)))) p = Inr q \<and>
       is_grid ny nx q \<and>
       (\<forall>r c. r < ny \<longrightarrow> c < nx \<longrightarrow>
          q ! r ! c = (if c \<in> set js
                       then p ! (if r = 0 then 1 else if r = ny - 1
                                 then (if ny = 2 then 1 else ny - 2) else r) ! c
                       else p ! r ! c))"
proof (induction js arbitrary: p)
  case Nil
  then show ?case by simp
next
  case (Cons j js)
  let ?body = "\<lambda>j p. ebind (get2 p 1 (int j)) (\<lambda>x. ebind (set2 p 0 (int j) x) (\<lambda>p.
           ebind (get2 p (- 2) (int j)) (\<lambda>y. set2 p (- 1) (int j) y)))"
  from Cons.prems have j: "j < nx" "j \<notin> set js" and rest: "list_all (\<lambda>j. j < nx) js" "distinct js"
    by simp_all
  let ?p0 = "upd2 p 0 j (p ! 1 ! j)"
  let ?p1 = "upd2 ?p0 (ny - 1) j (?p0 ! (ny - 2) ! j)"
  have step: "?body j p = Inr ?p1"
    using Cons.prems(1) assms j(1) by (rule bc_cols_body)
  have g0: "is_grid ny nx ?p0" using Cons.prems(1) by (rule is_grid_upd2)
  have g1: "is_grid ny nx ?p1" using g0 by (rule is_grid_upd2)
  have rows: "1 < ny" "ny - 2 < ny" using assms by simp_all
  from Cons.IH[OF g1 rest] obtain q where q: "for_each js ?body ?p1 = Inr q" "is_grid ny nx q"
    "\<And>r c. r < ny \<Longrightarrow> c < nx \<Longrightarrow>
       q ! r ! c = (if c \<in> set js
                    then ?p1 ! (if r = 0 then 1 else if r = ny - 1
                                then (if ny = 2 then 1 else ny - 2) else r) ! c
                    else ?p1 ! r ! c)"
    by blast
  have p1: "?p1 ! r ! c = (if c = j
                           then p ! (if r = 0 then 1 else if r = ny - 1
                                     then (if ny = 2 then 1 else ny - 2) else r) ! c
                           else p ! r ! c)"
    if "r < ny" "c < nx" for r c
    unfolding nth_upd2[OF g0 that] nth_upd2[OF Cons.prems(1) that]
      nth_upd2[OF Cons.prems(1) rows(2) j(1)]
    using assms by auto
  have "q ! r ! c = (if c \<in> set (j # js)
                     then p ! (if r = 0 then 1 else if r = ny - 1
                               then (if ny = 2 then 1 else ny - 2) else r) ! c
                     else p ! r ! c)"
    if "r < ny" "c < nx" for r c
  proof -
    have r': "(if r = 0 then 1 else if r = ny - 1 then (if ny = 2 then 1 else ny - 2) else r) < ny"
      using that(1) assms by auto
    show ?thesis
      unfolding q(3)[OF that] p1[OF that] p1[OF r' that(2)]
      using j(2) by auto
  qed
  with q(1,2) step show ?case by simp
qed

lemma bc_cols_jit_cells:
  assumes "is_grid ny nx p" "is_grid ny nx b" "2 \<le> ny"
  shows "\<exists>q. bc_cols_jit b p = Inr q \<and> is_grid ny nx q \<and>
       (\<forall>r c. r < ny \<longrightarrow> c < nx \<longrightarrow>
          q ! r ! c = p ! (if r = 0 then 1 else if r = ny - 1
                           then (if ny = 2 then 1 else ny - 2) else r) ! c)"
proof -
  have nc: "ncols b = nx" using ncols_grid[OF assms(2)] assms(3) by simp
  have "list_all (\<lambda>j. j < nx) [0..<ncols b]" "distinct [0..<ncols b]"
    using nc by (simp_all add: list_all_iff)
  from bc_cols_loop[OF assms(3,1) this] show ?thesis
    unfolding bc_cols_jit_def using nc by auto
qed

lemma sweep_jit_cells:
  assumes "is_grid ny nx p" "is_grid ny nx b" "2 \<le> ny" "2 \<le> nx"
  shows "\<exists>q. sweep_jit b p = Inr q \<and> is_grid ny nx q \<and>
       (\<forall>r c. r < ny \<longrightarrow> c < nx \<longrightarrow>
          q ! r ! c = bcj_cell ny nx (assign_slice2 sl_inner sl_inner p (relax_rhs p b)) r c)"
proof -
  let ?g = "assign_slice2 sl_inner sl_inner p (relax_rhs p b)"
  have g: "is_grid ny nx ?g" using assms(1) by (rule is_grid_assign_slice2)
  from bc_rows_jit_cells[OF g assms(2,4)] obtain q1 where
    q1: "bc_rows_jit b ?g = Inr q1" "is_grid ny nx q1"
    "\<And>r c. r < ny \<Longrightarrow> c < nx \<Longrightarrow>
       q1 ! r ! c = (if c = nx - 1 then 0 else if c = 0 then ?g ! r ! 1 else ?g ! r ! c)"
    by blast
  from bc_cols_jit_cells[OF q1(2) assms(2,3)] obtain q where
    q: "bc_cols_jit b q1 = Inr q" "is_grid ny nx q"
    "\<And>r c. r < ny \<Longrightarrow> c < nx \<Longrightarrow>
       q ! r ! c = q1 ! (if r = 0 then 1 else if r = ny - 1
                         then (if ny = 2 then 1 else ny - 2) else r) ! c"
    by blast
  have run: "sweep_jit b p = Inr q"
    by (simp add: sweep_jit_def relax_jit_eq[OF assms(1,2)] q1(1) q(1))
  have "q ! r ! c = bcj_cell ny nx ?g r c" if "r < ny" "c < nx" for r c
  proof -
    have r': "(if r = 0 then 1 else if r = ny - 1 then (if ny = 2 then 1 else ny - 2) else r) < ny"
      using that(1) assms(3) by auto
    show ?thesis
      unfolding q(3)[OF that] q1(3)[OF r' that(2)] bcj_cell_def Let_def
      by (rule refl)
  qed
  with run q(2) show ?thesis by blast
qed

section \<open>The loops\<close>

lemma sweep_jit_Inr:
  assumes "is_grid ny nx p" "is_grid ny nx b" "2 \<le> ny" "2 \<le> nx"
  shows "\<exists>q. sweep_jit b p = Inr q \<and> is_grid ny nx q"
  using sweep_jit_cells[OF assms] by (elim exE conjE) (rule exI, rule conjI)

lemma ppj_while_sweeps:
  "ppj_while b t s = Inr (q, d', n') \<Longrightarrow>
   snd (snd s) \<le> n' \<and> n' \<le> max (snd (snd s)) 501 \<and>
   sweeps_jit (n' - snd (snd s)) b (fst s) = Inr q \<and>
   (f_gt (fst (snd s)) t \<and> snd (snd s) \<le> 500 \<longrightarrow> snd (snd s) < n')"
proof (induction b t s rule: ppj_while.induct)
  case (1 b t p d n)
  show ?case
  proof (cases "f_gt d t \<and> n \<le> 500")
    case False
    with 1(2) show ?thesis by (subst (asm) ppj_while.simps) auto
  next
    case True
    show ?thesis
    proof (cases "sweep_jit b p")
      case (Inl e)
      with True 1(2) show ?thesis by (subst (asm) ppj_while.simps) simp
    next
      case (Inr p')
      let ?c = "if n mod 10 = 0 then iter_diff_jit p' p else Inr d"
      from True Inr 1(2) obtain d1 where d1: "?c = Inr d1"
        and run: "ppj_while b t (p', d1, n + 1) = Inr (q, d', n')"
        by (subst (asm) ppj_while.simps) (cases ?c; simp)
      from "1.IH"[OF True refl Inr d1 run] have
        ih: "n + 1 \<le> n'" "n' \<le> max (n + 1) 501" "sweeps_jit (n' - (n + 1)) b p' = Inr q"
        by simp_all
      from ih(1) have "n' - n = Suc (n' - (n + 1))" by simp
      with ih(3) Inr have "sweeps_jit (n' - n) b p = Inr q" by simp
      with ih(1,2) True show ?thesis by auto
    qed
  qed
qed

lemma pressure_poisson_jit_sweeps:
  assumes "pressure_poisson_jit p b t = Inr q"
  shows "\<exists>k. k \<le> 501 \<and> sweeps_jit k b p = Inr q \<and> (\<not> absorbs_one t \<longrightarrow> 1 \<le> k)"
proof -
  from assms obtain d' n' where run: "ppj_while b t (p, Fin (plus_one t), 0) = Inr (q, d', n')"
    by (auto simp: pressure_poisson_jit_def ebind_eq_Inr)
  from ppj_while_sweeps[OF run] have "n' \<le> 501" "sweeps_jit n' b p = Inr q"
    "\<not> absorbs_one t \<longrightarrow> 1 \<le> n'"
    by (simp_all add: plus_one_gt Suc_le_eq)
  then show ?thesis by blast
qed

lemma pressure_poisson_jit_absorbed: "absorbs_one t \<Longrightarrow> pressure_poisson_jit p b t = Inr p"
  unfolding pressure_poisson_jit_def
  by (subst ppj_while.simps) (simp add: plus_one_gt)

lemma pressure_poisson_jit_start:
  "\<not> absorbs_one t \<Longrightarrow>
   pressure_poisson_jit p b t =
     (case sweep_jit b p of
        Inl e \<Rightarrow> Inl e
      | Inr p' \<Rightarrow>
         (case iter_diff_jit p' p of
            Inl e \<Rightarrow> Inl e
          | Inr d \<Rightarrow> ebind (ppj_while b t (p', d, 1)) (\<lambda>(q, d, n). Inr q)))"
  unfolding pressure_poisson_jit_def
  by (subst ppj_while.simps) (simp add: plus_one_gt split: sum.split)

lemma pressure_poisson_sweeps:
  assumes "pressure_poisson p b t = Some (Inr q)"
  shows "\<exists>k. sweeps k b p = Inr q \<and> (\<not> absorbs_one t \<longrightarrow> 1 \<le> k)"
proof -
  from assms obtain d where "pp_while b t p (Fin (plus_one t)) = Some (Inr (q, d))"
    by (auto simp: pressure_poisson_Some)
  from pp_while_sweeps_aux[OF this refl] show ?thesis
    by (auto simp: Suc_le_eq plus_one_gt)
qed

lemma sweeps_snoc:
  "sweeps (Suc k) b p = Inr q \<Longrightarrow> \<exists>p'. sweeps k b p = Inr p' \<and> sweep b p' = Inr q"
proof (induction k arbitrary: p)
  case 0
  then show ?case by (cases "sweep b p") simp_all
next
  case (Suc k)
  from Suc.prems obtain p1 where p1: "sweep b p = Inr p1" "sweeps (Suc k) b p1 = Inr q"
    by (cases "sweep b p") auto
  from Suc.IH[OF p1(2)] p1(1) show ?case by auto
qed

lemma sweeps_jit_snoc:
  "sweeps_jit (Suc k) b p = Inr q \<Longrightarrow> \<exists>p'. sweeps_jit k b p = Inr p' \<and> sweep_jit b p' = Inr q"
proof (induction k arbitrary: p)
  case 0
  then show ?case by (cases "sweep_jit b p") simp_all
next
  case (Suc k)
  from Suc.prems obtain p1 where p1: "sweep_jit b p = Inr p1" "sweeps_jit (Suc k) b p1 = Inr q"
    by (cases "sweep_jit b p") auto
  from Suc.IH[OF p1(2)] p1(1) show ?case by auto
qed

lemma is_grid_sweeps: "is_grid ny nx p \<Longrightarrow> sweeps k b p = Inr q \<Longrightarrow> is_grid ny nx q"
proof (induction k arbitrary: p)
  case 0
  then show ?case by simp
next
  case (Suc k)
  from Suc.prems(2) obtain p1 where p1: "sweep b p = Inr p1" "sweeps k b p1 = Inr q"
    by (cases "sweep b p") auto
  from Suc.IH[OF is_grid_sweep[OF Suc.prems(1) p1(1)] p1(2)] show ?case .
qed

lemma is_grid_sweeps_jit:
  assumes "is_grid ny nx b" "2 \<le> ny" "2 \<le> nx"
  shows "is_grid ny nx p \<Longrightarrow> sweeps_jit k b p = Inr q \<Longrightarrow> is_grid ny nx q"
proof (induction k arbitrary: p)
  case 0
  then show ?case by simp
next
  case (Suc k)
  from Suc.prems(2) obtain p1 where p1: "sweep_jit b p = Inr p1" "sweeps_jit k b p1 = Inr q"
    by (cases "sweep_jit b p") auto
  from sweep_jit_Inr[OF Suc.prems(1) assms] p1(1) have "is_grid ny nx p1" by auto
  from Suc.IH[OF this p1(2)] show ?case .
qed

section \<open>The relaxation sweep\<close>

lemma bcj_cell_interior: "interior ny nx i j \<Longrightarrow> bcj_cell ny nx g i j = g ! i ! j"
  by (auto simp: bcj_cell_def interior_def)

text \<open>
  C2. In a sweep of \<^verbatim>\<open>pressure_poisson\<close> (either version) on grids \<open>p\<close> and \<open>b\<close> of one
  shape, with \<open>pn\<close> the copy of \<open>p\<close> taken first, the interior update returns a grid whose
  interior cells hold \<open>0.25*(pn[i,j+1] + pn[i,j-1] + pn[i+1,j] + pn[i-1,j]) - b[i,j]\<close>,
  computed from the saved values only, and whose other cells are those of \<open>p\<close>; the
  slice assignment of the numpy version and the two nested loops of the jitted version
  give the same grid. The interior cells still hold these values at the end of the
  sweep, after the boundary conditions.
\<close>

theorem sweep_interior:
  assumes "is_grid ny nx p" "is_grid ny nx b"
  shows "\<exists>r. relax p b p = Inr r \<and> relax_jit p b p = Inr r \<and> is_grid ny nx r \<and>
           (\<forall>i j. i < ny \<and> j < nx \<longrightarrow>
              r ! i ! j = (if interior ny nx i j then relaxed_cell p b i j else p ! i ! j)) \<and>
           (\<forall>q. sweep b p = Inr q \<or> sweep_jit b p = Inr q \<longrightarrow>
              (\<forall>i j. interior ny nx i j \<longrightarrow> q ! i ! j = relaxed_cell p b i j))"
proof -
  let ?r = "assign_slice2 sl_inner sl_inner p (relax_rhs p b)"
  have g: "is_grid ny nx ?r" using assms(1) by (rule is_grid_assign_slice2)
  have cells: "?r ! i ! j = (if interior ny nx i j then relaxed_cell p b i j else p ! i ! j)"
    if "i < ny \<and> j < nx" for i j
    using that nth_relax[OF assms, of i j] by simp
  have jit: "q ! i ! j = relaxed_cell p b i j" if "sweep_jit b p = Inr q" "interior ny nx i j" for q i j
  proof -
    from that(2) have n: "2 \<le> ny" "2 \<le> nx" and ij: "i < ny" "j < nx"
      by (auto simp: interior_def)
    from sweep_jit_cells[OF assms n] that(1) ij have "q ! i ! j = bcj_cell ny nx ?r i j"
      by auto
    also have "\<dots> = ?r ! i ! j" using that(2) by (rule bcj_cell_interior)
    also have "\<dots> = relaxed_cell p b i j" using cells[of i j] ij that(2) by simp
    finally show ?thesis .
  qed
  have both: "q ! i ! j = relaxed_cell p b i j"
    if "sweep b p = Inr q \<or> sweep_jit b p = Inr q" "interior ny nx i j" for q i j
    using that sweep_interior_cell[OF assms _ that(2)] jit by blast
  have c4: "\<forall>i j. i < ny \<and> j < nx \<longrightarrow>
      ?r ! i ! j = (if interior ny nx i j then relaxed_cell p b i j else p ! i ! j)"
    using cells by blast
  have c5: "\<forall>q. sweep b p = Inr q \<or> sweep_jit b p = Inr q \<longrightarrow>
      (\<forall>i j. interior ny nx i j \<longrightarrow> q ! i ! j = relaxed_cell p b i j)"
    using both by blast
  show ?thesis
    by (rule exI[of _ ?r]) (intro conjI relax_eq[OF assms] relax_jit_eq[OF assms] g c4 c5)
qed

text \<open>
  Witness of C2: a 3 by 3 sweep of each version; the interior cell becomes
  \<open>0.25 * (6 + 4 + 8 + 2) - 1 = 4\<close>.
\<close>

theorem sweep_interior_witness:
  "(\<exists>r. relax [[1, 2, 3], [4, 5, 6], [7, 8, 9]] [[0, 0, 0], [0, 1, 0], [0, 0, 0]]
          [[1, 2, 3], [4, 5, 6], [7, 8, 9]] = Inr r \<and>
        relax_jit [[1, 2, 3], [4, 5, 6], [7, 8, 9]] [[0, 0, 0], [0, 1, 0], [0, 0, 0]]
          [[1, 2, 3], [4, 5, 6], [7, 8, 9]] = Inr r \<and> r ! 1 ! 1 = 4 \<and> r ! 0 ! 2 = 3) \<and>
   (\<exists>q. sweep [[0, 0, 0], [0, 1, 0], [0, 0, 0]] [[1, 2, 3], [4, 5, 6], [7, 8, 9]] = Inr q \<and>
        q ! 1 ! 1 = 4) \<and>
   (\<exists>q. sweep_jit [[0, 0, 0], [0, 1, 0], [0, 0, 0]] [[1, 2, 3], [4, 5, 6], [7, 8, 9]] = Inr q \<and>
        q ! 1 ! 1 = 4)"
proof -
  let ?p = "[[1, 2, 3], [4, 5, 6], [7, 8, 9::real]]" and ?b = "[[0, 0, 0], [0, 1, 0], [0, 0, 0::real]]"
  have gp: "is_grid 3 3 ?p" and gb: "is_grid 3 3 ?b" by simp_all
  have i: "interior 3 3 1 1" and o: "\<not> interior 3 3 0 2" by (simp_all add: interior_def)
  have v: "relaxed_cell ?p ?b 1 1 = 4" by (simp add: relaxed_cell_def)
  from sweep_interior[OF gp gb] obtain r where
    r: "relax ?p ?b ?p = Inr r" "relax_jit ?p ?b ?p = Inr r"
    "\<forall>i j. i < 3 \<and> j < 3 \<longrightarrow>
       r ! i ! j = (if interior 3 3 i j then relaxed_cell ?p ?b i j else ?p ! i ! j)"
    "\<forall>q. sweep ?b ?p = Inr q \<or> sweep_jit ?b ?p = Inr q \<longrightarrow>
       (\<forall>i j. interior 3 3 i j \<longrightarrow> q ! i ! j = relaxed_cell ?p ?b i j)"
    by blast
  from r(3) i v have r11: "r ! 1 ! 1 = 4" by simp
  from r(3)[rule_format, of 0 2] o have r02: "r ! 0 ! 2 = 3" by simp
  obtain q where q: "sweep ?b ?p = Inr q"
    using sweep_eq[OF gp gb] by simp
  obtain q' where q': "sweep_jit ?b ?p = Inr q'"
    using sweep_jit_Inr[OF gp gb] by auto
  from r(4) q i v have "q ! 1 ! 1 = 4" by simp
  moreover from r(4) q' i v have "q' ! 1 ! 1 = 4" by simp
  ultimately show ?thesis using r(1,2) r11 r02 q q' by blast
qed

section \<open>Runs of the pressure solve\<close>

lemmas eval_jit_defs =
  sweep_jit_def relax_jit_def relax_cell_def bc_rows_jit_def bc_cols_jit_def get2_def set2_def
  py_index_def ncols_def zeros_def upt_rec numeral_3_eq_3 numeral_2_eq_2

lemma sweep_jit_ones:
  "sweep_jit (zeros 3 3) [[1, 1, 1], [1, 1, 1], [1, 1, 1]] = Inr [[1, 1, 0], [1, 1, 0], [1, 1, 0]]"
  by (simp add: eval_jit_defs)

lemma sweep_zero: "sweep (zeros 3 3) (zeros 3 3) = Inr (zeros 3 3)"
  by (simp add: eval_defs)

lemma sweep_jit_zero: "sweep_jit (zeros 3 3) (zeros 3 3) = Inr (zeros 3 3)"
  by (simp add: eval_jit_defs)

lemma iter_diff_jit_ones:
  "iter_diff_jit [[1, 1, 0], [1, 1, 0], [1, 1, 0]] [[1, 1, 1], [1, 1, 1], [1, 1, 1]] =
   Inr (np_sqrt (Fin (1 / 3)))"
  by (simp add: iter_diff_jit_def nb_div_def np_sum_def np_defs)

lemma not_f_gt_sqrt_third: "\<not> f_gt (np_sqrt (Fin (1 / 3))) 1"
  by (subst f_gt_sqrt) (simp_all add: power2_eq_square)

lemma ppj_while_stop: "\<not> f_gt d t \<Longrightarrow> ppj_while b t (p, d, n) = Inr (p, d, n)"
  by (subst ppj_while.simps) simp

lemma run_jit_ones:
  "pressure_poisson_jit [[1, 1, 1], [1, 1, 1], [1, 1, 1]] (zeros 3 3) 1 =
     Inr [[1, 1, 0], [1, 1, 0], [1, 1, 0]]"
  unfolding pressure_poisson_jit_start[OF not_absorbs_consts(3)] sweep_jit_ones sum.case
    iter_diff_jit_ones ppj_while_stop[OF not_f_gt_sqrt_third]
  by simp

text \<open>
  Counterexample to C4: the jitted version, run on the 3 by 3 pressure grid of ones with a
  zero source and the tolerance 1, returns after one sweep a grid whose last row is not
  zero: its boundary loops clamp the last column to 0 and copy the row above into the
  last row.
\<close>

theorem jit_last_row_counterexample:
  "pressure_poisson_jit [[1, 1, 1], [1, 1, 1], [1, 1, 1]] (zeros 3 3) 1 =
     Inr [[1, 1, 0], [1, 1, 0], [1, 1, 0]] \<and>
   [[1, 1, 0], [1, 1, 0], [1, 1, 0::real]] ! 2 ! 0 \<noteq> 0"
  using run_jit_ones by simp

lemma pressure_poisson_last_sweep:
  assumes "pressure_poisson p b t = Some (Inr q)" "\<not> absorbs_one t"
  shows "\<exists>k p'. sweeps k b p = Inr p' \<and> sweep b p' = Inr q"
proof -
  from pressure_poisson_sweeps[OF assms(1)] assms(2) obtain k where
    k: "1 \<le> k" "sweeps k b p = Inr q"
    by blast
  then obtain k' where "k = Suc k'" by (cases k) auto
  with k(2) sweeps_snoc[of k' b p q] show ?thesis by blast
qed

lemma pressure_poisson_jit_last_sweep:
  assumes "pressure_poisson_jit p b t = Inr q" "\<not> absorbs_one t"
  shows "\<exists>k p'. sweeps_jit k b p = Inr p' \<and> sweep_jit b p' = Inr q"
proof -
  from pressure_poisson_jit_sweeps[OF assms(1)] assms(2) obtain k where
    k: "1 \<le> k" "sweeps_jit k b p = Inr q"
    by blast
  then obtain k' where "k = Suc k'" by (cases k) auto
  with k(2) sweeps_jit_snoc[of k' b p q] show ?thesis by blast
qed

lemma bcj_cell_props:
  assumes "2 \<le> ny" "i < ny" "j < nx"
  shows "3 \<le> nx \<Longrightarrow> bcj_cell ny nx g i 0 = bcj_cell ny nx g i 1"
    and "bcj_cell ny nx g i (nx - 1) = 0"
    and "bcj_cell ny nx g (ny - 1) j = bcj_cell ny nx g (ny - 2) j"
  using assms by (auto simp: bcj_cell_def)

text \<open>
  C4, amended. Let the tolerance be one that the start value \<^verbatim>\<open>l2_target + 1\<close> of the
  residual exceeds in float64 (every tolerance below \<open>2^53\<close> in magnitude is). Whenever
  the numpy version of \<^verbatim>\<open>pressure_poisson\<close> returns a grid (for a rectangular \<open>p\<close>),
  column 0 of the result equals column 1 and its last row is zero. Whenever the jitted
  version returns a grid, on grids \<open>p\<close> and \<open>b\<close> of one shape with at least two rows and
  three columns, column 0 of the result equals column 1, its last column is zero and its
  last row equals the row above it.
\<close>

theorem pressure_boundary:
  assumes "is_grid ny nx p" "\<not> absorbs_one t"
  shows "(\<forall>q. pressure_poisson p b t = Some (Inr q) \<longrightarrow>
            (\<forall>i. i < ny \<longrightarrow> q ! i ! 0 = q ! i ! 1) \<and> (\<forall>j. j < nx \<longrightarrow> q ! (ny - 1) ! j = 0)) \<and>
         (is_grid ny nx b \<and> 2 \<le> ny \<and> 3 \<le> nx \<longrightarrow>
            (\<forall>q. pressure_poisson_jit p b t = Inr q \<longrightarrow>
               (\<forall>i. i < ny \<longrightarrow> q ! i ! 0 = q ! i ! 1) \<and>
               (\<forall>i. i < ny \<longrightarrow> q ! i ! (nx - 1) = 0) \<and>
               (\<forall>j. j < nx \<longrightarrow> q ! (ny - 1) ! j = q ! (ny - 2) ! j)))"
proof -
  have numpy: "(\<forall>i. i < ny \<longrightarrow> q ! i ! 0 = q ! i ! 1) \<and> (\<forall>j. j < nx \<longrightarrow> q ! (ny - 1) ! j = 0)"
    if run: "pressure_poisson p b t = Some (Inr q)" for q
  proof -
    from pressure_poisson_last_sweep[OF run assms(2)] obtain k p' where
      p': "sweeps k b p = Inr p'" "sweep b p' = Inr q"
      by blast
    note sb = sweep_boundary[OF is_grid_sweeps[OF assms(1) p'(1)] p'(2)]
    from sb[of _ 0] have "\<forall>i. i < ny \<longrightarrow> q ! i ! 0 = q ! i ! 1" by blast
    moreover from sb[of 0] have "\<forall>j. j < nx \<longrightarrow> q ! (ny - 1) ! j = 0" by blast
    ultimately show ?thesis by blast
  qed
  have jit: "(\<forall>i. i < ny \<longrightarrow> q ! i ! 0 = q ! i ! 1) \<and>
             (\<forall>i. i < ny \<longrightarrow> q ! i ! (nx - 1) = 0) \<and>
             (\<forall>j. j < nx \<longrightarrow> q ! (ny - 1) ! j = q ! (ny - 2) ! j)"
    if h: "is_grid ny nx b \<and> 2 \<le> ny \<and> 3 \<le> nx" and q: "pressure_poisson_jit p b t = Inr q" for q
  proof -
    from h have gb: "is_grid ny nx b" and n: "2 \<le> ny" "2 \<le> nx" "3 \<le> nx" by simp_all
    from pressure_poisson_jit_last_sweep[OF q assms(2)] obtain k p' where
      p': "sweeps_jit k b p = Inr p'" "sweep_jit b p' = Inr q"
      by blast
    have gp': "is_grid ny nx p'" using is_grid_sweeps_jit[OF gb n(1,2) assms(1) p'(1)] .
    let ?g = "assign_slice2 sl_inner sl_inner p' (relax_rhs p' b)"
    from sweep_jit_cells[OF gp' gb n(1,2)] p'(2) have
      cells: "\<And>r c. r < ny \<Longrightarrow> c < nx \<Longrightarrow> q ! r ! c = bcj_cell ny nx ?g r c"
      by auto
    have z: "0 < nx" "1 < nx" "nx - 1 < nx" "ny - 1 < ny" "ny - 2 < ny" using n by simp_all
    have c1: "q ! i ! 0 = q ! i ! 1" if "i < ny" for i
      unfolding cells[OF that z(1)] cells[OF that z(2)]
      using n(3) by (rule bcj_cell_props(1)[OF n(1) that z(1)])
    have c2: "q ! i ! (nx - 1) = 0" if "i < ny" for i
      unfolding cells[OF that z(3)] by (rule bcj_cell_props(2)[OF n(1) that z(1)])
    have c3: "q ! (ny - 1) ! j = q ! (ny - 2) ! j" if "j < nx" for j
      unfolding cells[OF z(4) that] cells[OF z(5) that]
      by (rule bcj_cell_props(3)[OF n(1) z(4) that])
    from c1 c2 c3 show ?thesis by blast
  qed
  from numpy jit show ?thesis by blast
qed

lemma pp_while_stop: "\<not> f_gt d t \<Longrightarrow> pp_while b t p d = Some (Inr (p, d))"
  by (subst pp_while_unfold) simp

lemma run_converged:
  "pressure_poisson [[4, 4, 4], [4, 4, 4], [0, 0, 0]] (zeros 3 3) (3 / 10) =
   Some (Inr [[3, 3, 3], [3, 3, 3], [0, 0, 0]])"
proof -
  have s: "sweep (zeros 3 3) [[4, 4, 4], [4, 4, 4], [0, 0, 0]] = Inr [[3, 3, 3], [3, 3, 3], [0, 0, 0]]"
    using sweep_decay[of 4] by simp
  have d: "iter_diff_of [[3, 3, 3], [3, 3, 3], [0, 0, 0]] [[4, 4, 4], [4, 4, 4], [0, 0, 0]] = Fin (1 / 4)"
    using iter_diff_decay[of 4] by simp
  have e: "\<not> f_gt (Fin (1 / 4)) (3 / 10)" by simp
  show ?thesis
    unfolding pressure_poisson_start[OF not_absorbs_consts(2)] s sum.case d pp_while_stop[OF e]
    by simp
qed

text \<open>Witness of C4: a run of each version on a 3 by 3 grid.\<close>

theorem pressure_boundary_witness:
  "(\<exists>q. pressure_poisson [[4, 4, 4], [4, 4, 4], [0, 0, 0]] (zeros 3 3) (3 / 10) = Some (Inr q) \<and>
        q ! 0 ! 0 = q ! 0 ! 1 \<and> q ! 1 ! 0 = q ! 1 ! 1 \<and> q ! 2 ! 0 = 0 \<and> q ! 2 ! 1 = 0 \<and>
        q ! 2 ! 2 = 0) \<and>
   (\<exists>q. pressure_poisson_jit [[1, 1, 1], [1, 1, 1], [1, 1, 1]] (zeros 3 3) 1 = Inr q \<and>
        q ! 0 ! 0 = q ! 0 ! 1 \<and> q ! 1 ! 2 = 0 \<and> q ! 2 ! 1 = q ! 1 ! 1)"
proof -
  let ?p = "[[4, 4, 4], [4, 4, 4], [0, 0, 0::real]]" and ?o = "[[1, 1, 1], [1, 1, 1], [1, 1, 1::real]]"
  have gp: "is_grid 3 3 ?p" and go: "is_grid 3 3 ?o" and gz: "is_grid 3 3 (zeros 3 3)"
    by (simp_all add: is_grid_zeros)
  from pressure_boundary[OF gp not_absorbs_consts(2), of "zeros 3 3"] run_converged
  have a: "\<exists>q. pressure_poisson ?p (zeros 3 3) (3 / 10) = Some (Inr q) \<and>
        q ! 0 ! 0 = q ! 0 ! 1 \<and> q ! 1 ! 0 = q ! 1 ! 1 \<and> q ! 2 ! 0 = 0 \<and> q ! 2 ! 1 = 0 \<and>
        q ! 2 ! 2 = 0"
    by simp
  from pressure_boundary[OF go not_absorbs_consts(3), of "zeros 3 3"] gz run_jit_ones
  obtain q where q: "pressure_poisson_jit ?o (zeros 3 3) 1 = Inr q"
    "\<forall>i. i < 3 \<longrightarrow> q ! i ! 0 = q ! i ! 1" "\<forall>i. i < 3 \<longrightarrow> q ! i ! (3 - 1) = 0"
    "\<forall>j. j < 3 \<longrightarrow> q ! (3 - 1) ! j = q ! (3 - 2) ! j"
    by auto
  from q(2) have "q ! 0 ! 0 = q ! 0 ! 1" by simp
  moreover from q(3)[rule_format, of 1] have "q ! 1 ! 2 = 0" by simp
  moreover from q(4)[rule_format, of 1] have "q ! 2 ! 1 = q ! 1 ! 1" by simp
  ultimately show ?thesis using a q(1) by blast
qed

text \<open>
  Counterexample to C10: with the tolerance \<open>1e16\<close> the start value \<^verbatim>\<open>l2_target + 1\<close> of
  the residual is \<^verbatim>\<open>l2_target\<close> again in float64, the loop condition is False at once, and
  both versions return the 3 by 3 grid of ones as it came, with no sweep and no boundary
  condition applied (one sweep would have made its last row, or its last column, zero).
\<close>

theorem absorbed_start_counterexample:
  "pressure_poisson [[1, 1, 1], [1, 1, 1], [1, 1, 1]] (zeros 3 3) 10000000000000000 =
     Some (Inr [[1, 1, 1], [1, 1, 1], [1, 1, 1]]) \<and>
   pressure_poisson_jit [[1, 1, 1], [1, 1, 1], [1, 1, 1]] (zeros 3 3) 10000000000000000 =
     Inr [[1, 1, 1], [1, 1, 1], [1, 1, 1]] \<and>
   sweep (zeros 3 3) [[1, 1, 1], [1, 1, 1], [1, 1, 1]] = Inr [[1, 1, 1], [1, 1, 1], [0, 0, 0]] \<and>
   sweep_jit (zeros 3 3) [[1, 1, 1], [1, 1, 1], [1, 1, 1]] = Inr [[1, 1, 0], [1, 1, 0], [1, 1, 0]]"
  by (simp only: pressure_poisson_absorbed[OF absorbs_1e16]
      pressure_poisson_jit_absorbed[OF absorbs_1e16] sweep_ones sweep_jit_ones simp_thms)

text \<open>
  C10, amended. For a tolerance that the start value \<^verbatim>\<open>l2_target + 1\<close> of the residual
  exceeds in float64 (every tolerance below \<open>2^53\<close> in magnitude is), both versions of
  \<^verbatim>\<open>pressure_poisson\<close> run one full sweep (interior update and boundary conditions)
  before any convergence check can stop them: the first pass through the loop body is
  unconditional, and the loop goes on from the swept grid with the residual of that
  sweep (the jitted version with \<open>n = 1\<close>, unless that residual raises). A grid that is
  returned is therefore the input after at least one sweep. For a tolerance at which the
  1 is absorbed the loop body never runs and the input is returned as it came.
\<close>

theorem at_least_one_sweep:
  "(\<not> absorbs_one t \<longrightarrow>
      pressure_poisson p b t =
        (case sweep b p of
           Inl e \<Rightarrow> Some (Inl e)
         | Inr p' \<Rightarrow> map_option (map_sum id fst) (pp_while b t p' (iter_diff_of p' p))) \<and>
      pressure_poisson_jit p b t =
        (case sweep_jit b p of
           Inl e \<Rightarrow> Inl e
         | Inr p' \<Rightarrow>
            (case iter_diff_jit p' p of
               Inl e \<Rightarrow> Inl e
             | Inr d \<Rightarrow> ebind (ppj_while b t (p', d, 1)) (\<lambda>(q, d, n). Inr q))) \<and>
      (\<forall>q. pressure_poisson p b t = Some (Inr q) \<longrightarrow> (\<exists>k\<ge>1. sweeps k b p = Inr q)) \<and>
      (\<forall>q. pressure_poisson_jit p b t = Inr q \<longrightarrow> (\<exists>k\<ge>1. sweeps_jit k b p = Inr q))) \<and>
   (absorbs_one t \<longrightarrow>
      pressure_poisson p b t = Some (Inr p) \<and> pressure_poisson_jit p b t = Inr p) \<and>
   (\<bar>t\<bar> < 2 ^ 53 \<longrightarrow> \<not> absorbs_one t)"
proof (intro conjI allI impI)
  assume "\<not> absorbs_one t"
  then show "pressure_poisson p b t =
     (case sweep b p of
        Inl e \<Rightarrow> Some (Inl e)
      | Inr p' \<Rightarrow> map_option (map_sum id fst) (pp_while b t p' (iter_diff_of p' p)))"
    by (rule pressure_poisson_start)
next
  assume "\<not> absorbs_one t"
  then show "pressure_poisson_jit p b t =
     (case sweep_jit b p of
        Inl e \<Rightarrow> Inl e
      | Inr p' \<Rightarrow>
         (case iter_diff_jit p' p of
            Inl e \<Rightarrow> Inl e
          | Inr d \<Rightarrow> ebind (ppj_while b t (p', d, 1)) (\<lambda>(q, d, n). Inr q)))"
    by (rule pressure_poisson_jit_start)
next
  fix q assume "\<not> absorbs_one t" "pressure_poisson p b t = Some (Inr q)"
  with pressure_poisson_sweeps[of p b t q] show "\<exists>k\<ge>1. sweeps k b p = Inr q" by blast
next
  fix q assume "\<not> absorbs_one t" "pressure_poisson_jit p b t = Inr q"
  with pressure_poisson_jit_sweeps[of p b t q] show "\<exists>k\<ge>1. sweeps_jit k b p = Inr q" by blast
next
  assume "absorbs_one t"
  then show "pressure_poisson p b t = Some (Inr p)" by (rule pressure_poisson_absorbed)
next
  assume "absorbs_one t"
  then show "pressure_poisson_jit p b t = Inr p" by (rule pressure_poisson_jit_absorbed)
next
  assume "\<bar>t\<bar> < 2 ^ 53"
  then show "\<not> absorbs_one t" by (rule not_absorbs_small)
qed

text \<open>
  Witness of C10: the grid with two rows of fours changes by a quarter in one sweep, which
  is within the tolerance 0.3, and is rewritten all the same; and a run with the
  tolerance \<open>1e16\<close>, which returns its input.
\<close>

theorem at_least_one_sweep_witness:
  "(\<exists>k\<ge>1. sweeps k (zeros 3 3) [[4, 4, 4], [4, 4, 4], [0, 0, 0]] =
            Inr [[3, 3, 3], [3, 3, 3], [0, 0, 0]]) \<and>
   (\<exists>k\<ge>1. sweeps_jit k (zeros 3 3) [[1, 1, 1], [1, 1, 1], [1, 1, 1]] =
            Inr [[1, 1, 0], [1, 1, 0], [1, 1, 0]]) \<and>
   pressure_poisson [[4, 4, 4], [4, 4, 4], [0, 0, 0]] (zeros 3 3) 10000000000000000 =
     Some (Inr [[4, 4, 4], [4, 4, 4], [0, 0, 0]])"
  using at_least_one_sweep[of "3 / 10" "[[4, 4, 4], [4, 4, 4], [0, 0, 0]]" "zeros 3 3"]
    at_least_one_sweep[of 1 "[[1, 1, 1], [1, 1, 1], [1, 1, 1]]" "zeros 3 3"]
    at_least_one_sweep[of 10000000000000000 "[[4, 4, 4], [4, 4, 4], [0, 0, 0]]" "zeros 3 3"]
    run_converged run_jit_ones not_absorbs_consts absorbs_1e16
  by blast

lemma run_two_sweeps:
  "pp_while (zeros 3 3) (3 / 10) [[1, 1, 1], [1, 1, 1], [1, 1, 1]] (Fin (plus_one (3 / 10))) =
   Some (Inr ([[3 / 4, 3 / 4, 3 / 4], [3 / 4, 3 / 4, 3 / 4], [0, 0, 0]], Fin (1 / 4)))"
proof -
  have s2: "sweep (zeros 3 3) [[1, 1, 1], [1, 1, 1], [0, 0, 0]] =
            Inr [[3 / 4, 3 / 4, 3 / 4], [3 / 4, 3 / 4, 3 / 4], [0, 0, 0]]"
    using sweep_decay[of 1] by simp
  have d2: "iter_diff_of [[3 / 4, 3 / 4, 3 / 4], [3 / 4, 3 / 4, 3 / 4], [0, 0, 0]]
              [[1, 1, 1], [1, 1, 1], [0, 0, 0]] = Fin (1 / 4)"
    using iter_diff_decay[of 1] by simp
  have d0: "f_gt (Fin (plus_one (3 / 10))) (3 / 10)"
    by (simp add: plus_one_gt not_absorbs_consts)
  have d1: "f_gt (np_sqrt (Fin (1 / 3))) (3 / 10)"
    by (subst f_gt_sqrt) (simp_all add: power2_eq_square)
  have e: "\<not> f_gt (Fin (1 / 4)) (3 / 10)" by simp
  show ?thesis
    apply (subst pp_while_unfold)
    apply (simp only: d0 if_True sweep_ones sum.case iter_diff_ones)
    apply (subst pp_while_unfold)
    apply (simp only: d1 if_True s2 sum.case d2 pp_while_stop[OF e])
    done
qed

lemma sweeps_two_ones:
  "sweeps 2 (zeros 3 3) [[1, 1, 1], [1, 1, 1], [1, 1, 1]] =
   Inr [[3 / 4, 3 / 4, 3 / 4], [3 / 4, 3 / 4, 3 / 4], [0, 0, 0]]"
  using sweep_decay[of 1] by (simp add: numeral_2_eq_2 sweep_ones)

text \<open>
  In the jitted version a sweep whose count \<open>n\<close> is not a multiple of 10 leaves the
  residual as it was.
\<close>

lemma ppj_while_no_check:
  "f_gt d t \<Longrightarrow> n \<le> 500 \<Longrightarrow> n mod 10 \<noteq> 0 \<Longrightarrow>
   ppj_while b t (p, d, n) =
     (case sweep_jit b p of Inl e \<Rightarrow> Inl e | Inr p' \<Rightarrow> ppj_while b t (p', d, n + 1))"
  by (subst ppj_while.simps) (simp split: sum.split)

text \<open>
  C3 asks that the residual is computed on every 10th sweep only. The numpy version of the
  CFD notebook computes it on every sweep (it tests \<^verbatim>\<open>n % 10 == 0\<close> on an \<^verbatim>\<open>n\<close> that it has
  just set to 0): started on the 3 by 3 pressure grid of ones with a zero source and the
  tolerance 0.3, it returns the grid of the second sweep, stopped by the residual 1/4
  that it computed in that sweep. A loop that checked on sweeps 1, 11, 21, ... only could
  not stop there, since the residual of the first sweep, \<open>sqrt (1/3)\<close>, is above the
  tolerance.
\<close>

theorem residual_checked_every_sweep:
  "pressure_poisson [[1, 1, 1], [1, 1, 1], [1, 1, 1]] (zeros 3 3) (3 / 10) =
     Some (sweeps 2 (zeros 3 3) [[1, 1, 1], [1, 1, 1], [1, 1, 1]]) \<and>
   sweeps 2 (zeros 3 3) [[1, 1, 1], [1, 1, 1], [1, 1, 1]] =
     Inr [[3 / 4, 3 / 4, 3 / 4], [3 / 4, 3 / 4, 3 / 4], [0, 0, 0]] \<and>
   f_gt (iter_diff_of [[1, 1, 1], [1, 1, 1], [0, 0, 0]] [[1, 1, 1], [1, 1, 1], [1, 1, 1]]) (3 / 10)"
proof -
  have "f_gt (np_sqrt (Fin (1 / 3))) (3 / 10)"
    by (subst f_gt_sqrt) (simp_all add: power2_eq_square)
  moreover have "pressure_poisson [[1, 1, 1], [1, 1, 1], [1, 1, 1]] (zeros 3 3) (3 / 10) =
      Some (Inr [[3 / 4, 3 / 4, 3 / 4], [3 / 4, 3 / 4, 3 / 4], [0, 0, 0]])"
    unfolding pressure_poisson_def run_two_sweeps by simp
  ultimately show ?thesis
    by (simp only: sweeps_two_ones iter_diff_ones simp_thms)
qed

lemma np_sum_sq_nonneg: "0 \<le> np_sum (np_sq g)"
  unfolding np_sum_def np_sq_def
  by (intro sum_list_nonneg) (auto intro!: sum_list_nonneg)

lemma iter_diff_of_cases:
  "iter_diff_of p pn =
     (if np_sum (np_sq pn) = 0
      then (if np_sum (np_sq (np_sub p pn)) = 0 then NaN else PInf)
      else Fin (sqrt (np_sum (np_sq (np_sub p pn)) / np_sum (np_sq pn))))"
proof -
  have n: "0 \<le> np_sum (np_sq (np_sub p pn))" and d: "0 \<le> np_sum (np_sq pn)"
    by (rule np_sum_sq_nonneg)+
  then have "0 \<le> np_sum (np_sq (np_sub p pn)) / np_sum (np_sq pn)" by simp
  with n show ?thesis
    by (auto simp: iter_diff_of_def np_div_def not_less)
qed

lemma sweep_source:
  "sweep [[0, 0, 0], [0, - 1, 0], [0, 0, 0]] (zeros 3 3) = Inr [[1, 1, 1], [1, 1, 1], [0, 0, 0]]"
  "sweep [[0, 0, 0], [0, - 1, 0], [0, 0, 0]] [[1, 1, 1], [1, 1, 1], [0, 0, 0]] =
   Inr [[7 / 4, 7 / 4, 7 / 4], [7 / 4, 7 / 4, 7 / 4], [0, 0, 0]]"
  "sweep_jit [[0, 0, 0], [0, - 1, 0], [0, 0, 0]] (zeros 3 3) = Inr [[1, 1, 0], [1, 1, 0], [1, 1, 0]]"
  by (simp_all add: eval_defs eval_jit_defs)

lemma iter_diff_source:
  "iter_diff_of [[1, 1, 1], [1, 1, 1], [0, 0, 0]] (zeros 3 3) = PInf"
  "iter_diff_of [[7 / 4, 7 / 4, 7 / 4], [7 / 4, 7 / 4, 7 / 4], [0, 0, 0]]
     [[1, 1, 1], [1, 1, 1], [0, 0, 0]] = Fin (3 / 4)"
proof -
  show "iter_diff_of [[1, 1, 1], [1, 1, 1], [0, 0, 0]] (zeros 3 3) = PInf"
    by (simp add: iter_diff_of_cases np_sum_def np_defs zeros_def numeral_3_eq_3)
  have "sqrt ((3 / 4)\<^sup>2) = 3 / 4" by (subst real_sqrt_abs) simp
  then show "iter_diff_of [[7 / 4, 7 / 4, 7 / 4], [7 / 4, 7 / 4, 7 / 4], [0, 0, 0]]
     [[1, 1, 1], [1, 1, 1], [0, 0, 0]] = Fin (3 / 4)"
    by (simp add: iter_diff_of_cases np_sum_def np_defs power2_eq_square)
qed

lemma zero_sums:
  "np_sum (np_sq (zeros 3 3)) = 0" "np_sum (np_sq (np_sub (zeros 3 3) (zeros 3 3))) = 0"
  by (simp_all add: np_sum_def np_defs zeros_def numeral_3_eq_3)

text \<open>
  C8. The residual is the quotient of two sums of squares, divided with no guard: when
  the denominator \<open>sum(pn**2)\<close> is zero, the numpy version gets nan (for a zero numerator)
  or inf from the division, and the jitted version raises ZeroDivisionError. The
  all-zero 3 by 3 pressure grid is such an input. With the all-zero source the first
  sweep leaves it zero, the first check divides 0 by 0, and the numpy loop ends with the
  residual nan, whose comparison with the tolerance is False. With a source that is not
  zero the first check divides 6 by 0; the numpy loop goes on with the residual inf and
  returns the grid of the second sweep: a zero denominator is not taken for convergence.
  The jitted version raises on both inputs.
\<close>

theorem zero_denominator:
  "np_sum (np_sq (zeros 3 3)) = 0 \<and>
   (iter_diff_of p pn = NaN) = (np_sum (np_sq pn) = 0 \<and> np_sum (np_sq (np_sub p pn)) = 0) \<and>
   (iter_diff_of p pn = PInf) = (np_sum (np_sq pn) = 0 \<and> np_sum (np_sq (np_sub p pn)) \<noteq> 0) \<and>
   (iter_diff_jit p pn = Inl ZeroDivisionError) = (np_sum (np_sq pn) = 0) \<and>
   pp_while (zeros 3 3) (1 / 10000) (zeros 3 3) (Fin (plus_one (1 / 10000))) =
     Some (Inr (zeros 3 3, NaN)) \<and>
   pressure_poisson (zeros 3 3) (zeros 3 3) (1 / 10000) = Some (Inr (zeros 3 3)) \<and>
   pp_while [[0, 0, 0], [0, - 1, 0], [0, 0, 0]] (4 / 5) (zeros 3 3) (Fin (plus_one (4 / 5))) =
     pp_while [[0, 0, 0], [0, - 1, 0], [0, 0, 0]] (4 / 5) [[1, 1, 1], [1, 1, 1], [0, 0, 0]] PInf \<and>
   pp_while [[0, 0, 0], [0, - 1, 0], [0, 0, 0]] (4 / 5) (zeros 3 3) (Fin (plus_one (4 / 5))) =
     Some (Inr ([[7 / 4, 7 / 4, 7 / 4], [7 / 4, 7 / 4, 7 / 4], [0, 0, 0]], Fin (3 / 4))) \<and>
   pressure_poisson (zeros 3 3) [[0, 0, 0], [0, - 1, 0], [0, 0, 0]] (4 / 5) =
     Some (Inr [[7 / 4, 7 / 4, 7 / 4], [7 / 4, 7 / 4, 7 / 4], [0, 0, 0]]) \<and>
   pressure_poisson_jit (zeros 3 3) (zeros 3 3) (1 / 10000) = Inl ZeroDivisionError \<and>
   pressure_poisson_jit (zeros 3 3) [[0, 0, 0], [0, - 1, 0], [0, 0, 0]] (4 / 5) =
     Inl ZeroDivisionError"
proof -
  let ?b = "[[0, 0, 0], [0, - 1, 0], [0, 0, 0::real]]"
  let ?g1 = "[[1, 1, 1], [1, 1, 1], [0, 0, 0::real]]"
  let ?g2 = "[[7 / 4, 7 / 4, 7 / 4], [7 / 4, 7 / 4, 7 / 4], [0, 0, 0::real]]"
  have c2: "(iter_diff_of p pn = NaN) = (np_sum (np_sq pn) = 0 \<and> np_sum (np_sq (np_sub p pn)) = 0)"
    and c3: "(iter_diff_of p pn = PInf) = (np_sum (np_sq pn) = 0 \<and> np_sum (np_sq (np_sub p pn)) \<noteq> 0)"
    by (simp_all add: iter_diff_of_cases)
  have c4: "(iter_diff_jit p pn = Inl ZeroDivisionError) = (np_sum (np_sq pn) = 0)"
    by (simp add: iter_diff_jit_def nb_div_def)
  have it: "iter_diff_of (zeros 3 3) (zeros 3 3) = NaN"
    by (simp add: iter_diff_of_cases zero_sums)
  have s1: "f_gt (Fin (plus_one (1 / 10000))) (1 / 10000)" "f_gt (Fin (plus_one (4 / 5))) (4 / 5)"
    by (simp_all add: plus_one_gt not_absorbs_consts)
  have e1: "\<not> f_gt NaN (1 / 10000)" and e2: "\<not> f_gt (Fin (3 / 4)) (4 / 5)" by simp_all
  have c5: "pp_while (zeros 3 3) (1 / 10000) (zeros 3 3) (Fin (plus_one (1 / 10000))) =
     Some (Inr (zeros 3 3, NaN))"
    apply (subst pp_while_unfold)
    apply (simp only: s1 if_True sweep_zero sum.case it pp_while_stop[OF e1])
    done
  have c6: "pressure_poisson (zeros 3 3) (zeros 3 3) (1 / 10000) = Some (Inr (zeros 3 3))"
    unfolding pressure_poisson_def c5 by simp
  have c7: "pp_while ?b (4 / 5) (zeros 3 3) (Fin (plus_one (4 / 5))) = pp_while ?b (4 / 5) ?g1 PInf"
    apply (subst pp_while_unfold)
    apply (simp only: s1 if_True sweep_source sum.case iter_diff_source)
    done
  have c8: "pp_while ?b (4 / 5) ?g1 PInf = Some (Inr (?g2, Fin (3 / 4)))"
    apply (subst pp_while_unfold)
    apply (simp only: f_gt.simps if_True sweep_source sum.case iter_diff_source pp_while_stop[OF e2])
    done
  have c9: "pressure_poisson (zeros 3 3) ?b (4 / 5) = Some (Inr ?g2)"
    unfolding pressure_poisson_def c7 c8 by simp
  have j1: "iter_diff_jit (zeros 3 3) (zeros 3 3) = Inl ZeroDivisionError"
    "iter_diff_jit [[1, 1, 0], [1, 1, 0], [1, 1, 0]] (zeros 3 3) = Inl ZeroDivisionError"
    by (simp_all add: iter_diff_jit_def nb_div_def zero_sums)
  have c10: "pressure_poisson_jit (zeros 3 3) (zeros 3 3) (1 / 10000) = Inl ZeroDivisionError"
    unfolding pressure_poisson_jit_start[OF not_absorbs_consts(4)] sweep_jit_zero sum.case j1
    by (rule refl)
  have c11: "pressure_poisson_jit (zeros 3 3) ?b (4 / 5) = Inl ZeroDivisionError"
    unfolding pressure_poisson_jit_start[OF not_absorbs_consts(5)] sweep_source sum.case j1
    by (rule refl)
  show ?thesis
    unfolding c7 c8
    by (intro conjI zero_sums(1) c2 c3 c4 c5 c6 c9 c10 c11 refl)
qed

text \<open>
  The jitted version counts its sweeps across iterations: whatever it is given, it ends,
  and a grid that it returns is the input after at most 501 sweeps.
\<close>

lemma pressure_poisson_jit_capped:
  assumes "pressure_poisson_jit p b t = Inr q"
  shows "\<exists>k\<le>501. sweeps_jit k b p = Inr q"
  using pressure_poisson_jit_sweeps[OF assms] by blast

section \<open>The time step\<close>

lemma is_grid_v_rhs:
  assumes "is_grid ny nx un" "is_grid ny nx vn" "is_grid ny nx p"
  shows "is_grid (ny - 2) (nx - 2) (v_rhs un vn p dt dx rho nu)"
  unfolding v_rhs_def
  by (intro is_grid_np is_grid_slice2[OF _ _ assms(1)] is_grid_slice2[OF _ _ assms(2)]
        is_grid_slice2[OF _ _ assms(3)])
    (rule stencil_inner stencil_from2 stencil_upto2)+

lemma nth_v_rhs:
  assumes "is_grid ny nx un" "is_grid ny nx vn" "is_grid ny nx p" "i < ny - 2" "j < nx - 2"
  shows "v_rhs un vn p dt dx rho nu ! i ! j =
         v_cell un vn p dt dx rho nu (vn ! (i + 1) ! (j + 1)) (i + 1) (j + 1)"
  using assms
  by (simp add: v_rhs_def v_cell_def np_defs slice2_def is_grid_length is_grid_nth)

lemma momentum_u_Inr:
  "momentum_u un vn p dt dx rho nu u = Inr mu \<Longrightarrow>
   mu = assign_slice2 sl_inner sl_inner u (u_rhs un vn p dt dx rho nu)"
  by (auto simp: momentum_u_def split: if_splits)

lemma momentum_v_Inr:
  "momentum_v un vn p dt dx rho nu v = Inr mv \<Longrightarrow>
   mv = assign_slice2 sl_inner sl_inner v (v_rhs un vn p dt dx rho nu)"
  by (auto simp: momentum_v_def split: if_splits)

lemma upd_fill_col:
  "is_grid ny nx (st r) \<Longrightarrow> 0 < ny \<Longrightarrow> py_index nx j = Inr k \<Longrightarrow>
   upd_array r (\<lambda>g. fill_col g j c) st = Inr (st(r := const_col (st r) k c))"
  by (simp add: upd_array_def fill_col_grid)

lemma upd_fill_row:
  "is_grid ny nx (st r) \<Longrightarrow> py_index ny i = Inr k \<Longrightarrow>
   upd_array r (\<lambda>g. fill_row g i c) st = Inr (st(r := const_row (st r) k c))"
  by (simp add: upd_array_def fill_row_grid)

lemma velocity_bc_eq:
  assumes "is_grid ny nx (st ru)" "is_grid ny nx (st rv)" "ru \<noteq> rv"
  shows "velocity_bc ru rv st =
         (if 1 \<le> ny \<and> 1 \<le> nx
          then Inr (st(ru := lid_u ny nx (st ru), rv := wall_v ny nx (st rv)))
          else Inl IndexError)"
proof (cases "1 \<le> ny \<and> 1 \<le> nx")
  case False
  then have "\<not> 0 < ncols (st ru)"
    using assms(1) ncols_grid[OF assms(1)] by (cases "st ru") (auto simp: ncols_def is_grid_def)
  with False show ?thesis
    by (auto simp: velocity_bc_def upd_array_def fill_col_def py_index_consts)
next
  case True
  then have ny: "0 < ny" and nx: "0 < nx" by simp_all
  have ix: "py_index nx 0 = Inr 0" "py_index nx (- 1) = Inr (nx - 1)"
    using nx by (simp_all add: py_index_consts)
  have iy: "py_index ny 0 = Inr 0" "py_index ny (- 1) = Inr (ny - 1)"
    using ny by (simp_all add: py_index_consts)
  let ?u1 = "const_col (st ru) 0 0" and ?v1 = "const_col (st rv) 0 0"
  let ?u2 = "const_col ?u1 (nx - 1) 0" and ?v2 = "const_col ?v1 (nx - 1) 0"
  let ?u3 = "const_row ?u2 0 0" and ?v3 = "const_row ?v2 0 0"
  let ?u4 = "const_row ?u3 (ny - 1) 1" and ?v4 = "const_row ?v3 (ny - 1) 0"
  have gu1: "is_grid ny nx ?u1" using assms(1) by (rule is_grid_const_col)
  have gu2: "is_grid ny nx ?u2" using gu1 by (rule is_grid_const_col)
  have gu3: "is_grid ny nx ?u3" using gu2 by (rule is_grid_const_row)
  have gv1: "is_grid ny nx ?v1" using assms(2) by (rule is_grid_const_col)
  have gv2: "is_grid ny nx ?v2" using gv1 by (rule is_grid_const_col)
  have gv3: "is_grid ny nx ?v3" using gv2 by (rule is_grid_const_row)
  define s1 where "s1 = st(ru := ?u1)"
  define s2 where "s2 = s1(ru := ?u2)"
  define s3 where "s3 = s2(rv := ?v1)"
  define s4 where "s4 = s3(rv := ?v2)"
  define s5 where "s5 = s4(ru := ?u3)"
  define s6 where "s6 = s5(ru := ?u4)"
  define s7 where "s7 = s6(rv := ?v3)"
  define s8 where "s8 = s7(rv := ?v4)"
  note sdefs = s1_def s2_def s3_def s4_def s5_def s6_def s7_def s8_def
  have e1: "upd_array ru (\<lambda>u. fill_col u 0 0) st = Inr s1"
    unfolding s1_def by (rule upd_fill_col[of ny nx st ru, OF assms(1) ny ix(1)])
  have r1: "s1 ru = ?u1" by (simp add: sdefs)
  have e2: "upd_array ru (\<lambda>u. fill_col u (- 1) 0) s1 = Inr s2"
    unfolding s2_def using upd_fill_col[of ny nx s1 ru, OF _ ny ix(2)] gu1 by (simp add: r1)
  have r2: "s2 rv = st rv" using assms(3) by (simp add: sdefs)
  have e3: "upd_array rv (\<lambda>v. fill_col v 0 0) s2 = Inr s3"
    unfolding s3_def using upd_fill_col[of ny nx s2 rv, OF _ ny ix(1)] assms(2) by (simp add: r2)
  have r3: "s3 rv = ?v1" by (simp add: sdefs)
  have e4: "upd_array rv (\<lambda>v. fill_col v (- 1) 0) s3 = Inr s4"
    unfolding s4_def using upd_fill_col[of ny nx s3 rv, OF _ ny ix(2)] gv1 by (simp add: r3)
  have r4: "s4 ru = ?u2" using assms(3) by (simp add: sdefs)
  have e5: "upd_array ru (\<lambda>u. fill_row u 0 0) s4 = Inr s5"
    unfolding s5_def using upd_fill_row[of ny nx s4 ru, OF _ iy(1)] gu2 by (simp add: r4)
  have r5: "s5 ru = ?u3" by (simp add: sdefs)
  have e6: "upd_array ru (\<lambda>u. fill_row u (- 1) 1) s5 = Inr s6"
    unfolding s6_def using upd_fill_row[of ny nx s5 ru, OF _ iy(2)] gu3 by (simp add: r5)
  have r6: "s6 rv = ?v2" using assms(3) by (simp add: sdefs)
  have e7: "upd_array rv (\<lambda>v. fill_row v 0 0) s6 = Inr s7"
    unfolding s7_def using upd_fill_row[of ny nx s6 rv, OF _ iy(1)] gv2 by (simp add: r6)
  have r7: "s7 rv = ?v3" by (simp add: sdefs)
  have e8: "upd_array rv (\<lambda>v. fill_row v (- 1) 0) s7 = Inr s8"
    unfolding s8_def using upd_fill_row[of ny nx s7 rv, OF _ iy(2)] gv3 by (simp add: r7)
  have "s8 = st(ru := lid_u ny nx (st ru), rv := wall_v ny nx (st rv))"
    using assms(3) by (auto simp: sdefs lid_u_def wall_v_def fun_eq_iff)
  then show ?thesis
    using True unfolding velocity_bc_def e1 ebind_simps e2 e3 e4 e5 e6 e7 e8 by simp
qed

lemma is_grid_lid_u: "is_grid ny nx u \<Longrightarrow> is_grid ny nx (lid_u ny nx u)"
  unfolding lid_u_def by (intro is_grid_const_row is_grid_const_col)

lemma is_grid_wall_v: "is_grid ny nx v \<Longrightarrow> is_grid ny nx (wall_v ny nx v)"
  unfolding wall_v_def by (intro is_grid_const_row is_grid_const_col)

lemma nth_lid_u:
  assumes "is_grid ny nx u" "i < ny" "j < nx"
  shows "lid_u ny nx u ! i ! j =
         (if i = ny - 1 then 1 else if i = 0 \<or> j = 0 \<or> j = nx - 1 then 0 else u ! i ! j)"
proof -
  let ?u1 = "const_col u 0 0"
  let ?u2 = "const_col ?u1 (nx - 1) 0"
  let ?u3 = "const_row ?u2 0 0"
  have gu1: "is_grid ny nx ?u1" using assms(1) by (rule is_grid_const_col)
  have gu2: "is_grid ny nx ?u2" using gu1 by (rule is_grid_const_col)
  have gu3: "is_grid ny nx ?u3" using gu2 by (rule is_grid_const_row)
  show ?thesis
    unfolding lid_u_def nth_const_row[OF gu3 assms(2,3)] nth_const_row[OF gu2 assms(2,3)]
      nth_const_col[OF gu1 assms(2,3)] nth_const_col[OF assms]
    by auto
qed

lemma nth_wall_v:
  assumes "is_grid ny nx v" "i < ny" "j < nx"
  shows "wall_v ny nx v ! i ! j =
         (if i = ny - 1 \<or> i = 0 \<or> j = 0 \<or> j = nx - 1 then 0 else v ! i ! j)"
proof -
  let ?v1 = "const_col v 0 0"
  let ?v2 = "const_col ?v1 (nx - 1) 0"
  let ?v3 = "const_row ?v2 0 0"
  have gv1: "is_grid ny nx ?v1" using assms(1) by (rule is_grid_const_col)
  have gv2: "is_grid ny nx ?v2" using gv1 by (rule is_grid_const_col)
  have gv3: "is_grid ny nx ?v3" using gv2 by (rule is_grid_const_row)
  show ?thesis
    unfolding wall_v_def nth_const_row[OF gv3 assms(2,3)] nth_const_row[OF gv2 assms(2,3)]
      nth_const_col[OF gv1 assms(2,3)] nth_const_col[OF assms]
    by auto
qed

lemma is_grid_pressure_poisson:
  assumes "is_grid ny nx p" "pressure_poisson p b t = Some (Inr q)"
  shows "is_grid ny nx q"
proof -
  from pressure_poisson_sweeps[OF assms(2)] obtain k where "sweeps k b p = Inr q" by blast
  with assms(1) show ?thesis by (rule is_grid_sweeps)
qed

text \<open>The assignments of a time step that returns, one after the other.\<close>

lemma cavity_step_chain:
  assumes "cavity_step dt dx rho nu rtol ru rv rp rb st = Some (Inr st')"
  shows "\<exists>b' p' mu mv s2 s3.
     velocity_term (st rb) rho dt (st ru) (st rv) dx = Inr b' \<and>
     pressure_poisson ((st(rb := b')) rp) b' rtol = Some (Inr p') \<and>
     s2 = st(rb := b', rp := p') \<and>
     momentum_u (st ru) (st rv) (s2 rp) dt dx rho nu (s2 ru) = Inr mu \<and>
     s3 = s2(ru := mu) \<and>
     momentum_v (st ru) (st rv) (s3 rp) dt dx rho nu (s3 rv) = Inr mv \<and>
     velocity_bc ru rv (s3(rv := mv)) = Inr st'"
proof -
  from assms obtain s1 where s1: "velocity_term_st rb rho dt ru rv dx st = Inr s1"
    by (cases "velocity_term_st rb rho dt ru rv dx st") (auto simp: cavity_step_def Let_def)
  then obtain b' where b': "velocity_term (st rb) rho dt (st ru) (st rv) dx = Inr b'"
    and s1': "s1 = st(rb := b')"
    by (auto simp: velocity_term_st_def ebind_eq_Inr)
  have rb: "s1 rb = b'" by (simp add: s1')
  from assms s1 obtain p' where p': "pressure_poisson (s1 rp) (s1 rb) rtol = Some (Inr p')"
    by (cases "pressure_poisson (s1 rp) (s1 rb) rtol";
        cases "the (pressure_poisson (s1 rp) (s1 rb) rtol)")
      (auto simp: cavity_step_def Let_def)
  define s2 where "s2 = s1(rp := p')"
  from assms s1 p' have r: "ebind (upd_array ru (momentum_u (st ru) (st rv) (s2 rp) dt dx rho nu) s2)
      (\<lambda>s. ebind (upd_array rv (momentum_v (st ru) (st rv) (s rp) dt dx rho nu) s)
         (velocity_bc ru rv)) = Inr st'"
    by (simp add: cavity_step_def Let_def s2_def del: fun_upd_apply)
  then obtain s3 where s3: "upd_array ru (momentum_u (st ru) (st rv) (s2 rp) dt dx rho nu) s2 = Inr s3"
    and r': "ebind (upd_array rv (momentum_v (st ru) (st rv) (s3 rp) dt dx rho nu) s3)
         (velocity_bc ru rv) = Inr st'"
    by (auto simp: ebind_eq_Inr)
  from s3 obtain mu where mu: "momentum_u (st ru) (st rv) (s2 rp) dt dx rho nu (s2 ru) = Inr mu"
    and s3': "s3 = s2(ru := mu)"
    by (auto simp: upd_array_def ebind_eq_Inr)
  from r' obtain s4 where s4: "upd_array rv (momentum_v (st ru) (st rv) (s3 rp) dt dx rho nu) s3 = Inr s4"
    and bc: "velocity_bc ru rv s4 = Inr st'"
    by (auto simp: ebind_eq_Inr)
  from s4 obtain mv where mv: "momentum_v (st ru) (st rv) (s3 rp) dt dx rho nu (s3 rv) = Inr mv"
    and s4': "s4 = s3(rv := mv)"
    by (auto simp: upd_array_def ebind_eq_Inr)
  have "s2 = st(rb := b', rp := p')" by (simp add: s2_def s1')
  with b' p'[unfolded rb] mu s3' mv bc[unfolded s4'] show ?thesis
    unfolding s1' by blast
qed

lemma cavity_step_bc:
  assumes "is_grid ny nx (st ru)" "is_grid ny nx (st rv)" "ru \<noteq> rv"
    and "cavity_step dt dx rho nu rtol ru rv rp rb st = Some (Inr st')"
  shows "\<exists>mu mv. is_grid ny nx mu \<and> is_grid ny nx mv \<and> 1 \<le> ny \<and> 1 \<le> nx \<and>
           st' ru = lid_u ny nx mu \<and> st' rv = wall_v ny nx mv"
proof -
  from cavity_step_chain[OF assms(4)] obtain b' p' mu mv s2 s3 where
    b': "velocity_term (st rb) rho dt (st ru) (st rv) dx = Inr b'" and
    p': "pressure_poisson ((st(rb := b')) rp) b' rtol = Some (Inr p')" and
    s2: "s2 = st(rb := b', rp := p')" and
    mu: "momentum_u (st ru) (st rv) (s2 rp) dt dx rho nu (s2 ru) = Inr mu" and
    s3: "s3 = s2(ru := mu)" and
    mv: "momentum_v (st ru) (st rv) (s3 rp) dt dx rho nu (s3 rv) = Inr mv" and
    bc: "velocity_bc ru rv (s3(rv := mv)) = Inr st'"
    by blast
  from b' have b'': "b' = assign_slice2 sl_inner sl_inner (st rb) (velocity_rhs rho dt (st ru) (st rv) dx)"
    by (auto simp: velocity_term_def split: if_splits)
  have g1: "is_grid ny nx ((st(rb := b')) r)" if "r = ru \<or> r = rv" for r
  proof (cases "r = rb")
    case True
    with that assms(1,2) have "is_grid ny nx (st rb)" by auto
    then have "is_grid ny nx b'" unfolding b'' by (rule is_grid_assign_slice2)
    with True show ?thesis by simp
  next
    case False
    with that assms(1,2) show ?thesis by auto
  qed
  have g2: "is_grid ny nx (s2 r)" if "r = ru \<or> r = rv" for r
  proof (cases "r = rp")
    case True
    with g1[OF that] have "is_grid ny nx ((st(rb := b')) rp)" by simp
    from is_grid_pressure_poisson[OF this p'] True show ?thesis by (simp add: s2)
  next
    case False
    with g1[OF that] show ?thesis by (simp add: s2)
  qed
  have gmu: "is_grid ny nx mu"
    unfolding momentum_u_Inr[OF mu] using g2[of ru] by (simp add: is_grid_assign_slice2)
  have "is_grid ny nx (s3 rv)" using g2[of rv] assms(3) by (simp add: s3)
  then have gmv: "is_grid ny nx mv"
    unfolding momentum_v_Inr[OF mv] by (rule is_grid_assign_slice2)
  let ?s4 = "s3(rv := mv)"
  have r4: "?s4 ru = mu" "?s4 rv = mv" using assms(3) by (simp_all add: s3)
  have g4: "is_grid ny nx (?s4 ru)" "is_grid ny nx (?s4 rv)"
    unfolding r4 using gmu gmv by simp_all
  from bc have "1 \<le> ny \<and> 1 \<le> nx \<and>
      st' = ?s4(ru := lid_u ny nx (?s4 ru), rv := wall_v ny nx (?s4 rv))"
    unfolding velocity_bc_eq[OF g4 assms(3)] by (auto split: if_splits)
  then have "1 \<le> ny \<and> 1 \<le> nx \<and> st' ru = lid_u ny nx mu \<and> st' rv = wall_v ny nx mv"
    using assms(3) r4 by auto
  with gmu gmv show ?thesis by blast
qed

lemma cavity_step_distinct:
  assumes "is_grid ny nx (st ru)" "is_grid ny nx (st rv)" "distinct [ru, rv, rp, rb]"
    and "cavity_step dt dx rho nu rtol ru rv rp rb st = Some (Inr st')"
  shows "velocity_term (st rb) rho dt (st ru) (st rv) dx = Inr (st' rb) \<and>
         pressure_poisson (st rp) (st' rb) rtol = Some (Inr (st' rp)) \<and>
         1 \<le> ny \<and> 1 \<le> nx \<and>
         st' ru = lid_u ny nx
           (assign_slice2 sl_inner sl_inner (st ru) (u_rhs (st ru) (st rv) (st' rp) dt dx rho nu)) \<and>
         st' rv = wall_v ny nx
           (assign_slice2 sl_inner sl_inner (st rv) (v_rhs (st ru) (st rv) (st' rp) dt dx rho nu))"
proof -
  from assms(3) have d: "ru \<noteq> rv" "ru \<noteq> rp" "ru \<noteq> rb" "rv \<noteq> rp" "rv \<noteq> rb" "rp \<noteq> rb"
    by auto
  from cavity_step_chain[OF assms(4)] obtain b' p' mu mv s2 s3 where
    b': "velocity_term (st rb) rho dt (st ru) (st rv) dx = Inr b'" and
    p': "pressure_poisson ((st(rb := b')) rp) b' rtol = Some (Inr p')" and
    s2: "s2 = st(rb := b', rp := p')" and
    mu: "momentum_u (st ru) (st rv) (s2 rp) dt dx rho nu (s2 ru) = Inr mu" and
    s3: "s3 = s2(ru := mu)" and
    mv: "momentum_v (st ru) (st rv) (s3 rp) dt dx rho nu (s3 rv) = Inr mv" and
    bc: "velocity_bc ru rv (s3(rv := mv)) = Inr st'"
    by blast
  have r2: "s2 rp = p'" "s2 ru = st ru" "s3 rp = p'" "s3 rv = st rv"
    using d by (simp_all add: s2 s3)
  have mu': "mu = assign_slice2 sl_inner sl_inner (st ru) (u_rhs (st ru) (st rv) p' dt dx rho nu)"
    using momentum_u_Inr[OF mu] by (simp add: r2)
  have mv': "mv = assign_slice2 sl_inner sl_inner (st rv) (v_rhs (st ru) (st rv) p' dt dx rho nu)"
    using momentum_v_Inr[OF mv] by (simp add: r2)
  let ?s4 = "s3(rv := mv)"
  have r4: "?s4 ru = mu" "?s4 rv = mv" "?s4 rp = p'" "?s4 rb = b'"
    using d by (simp_all add: s2 s3)
  have gmu: "is_grid ny nx mu" unfolding mu' using assms(1) by (rule is_grid_assign_slice2)
  have gmv: "is_grid ny nx mv" unfolding mv' using assms(2) by (rule is_grid_assign_slice2)
  have g4: "is_grid ny nx (?s4 ru)" "is_grid ny nx (?s4 rv)"
    using gmu gmv by (simp_all only: r4)
  from bc have st': "1 \<le> ny \<and> 1 \<le> nx \<and>
      st' = ?s4(ru := lid_u ny nx (?s4 ru), rv := wall_v ny nx (?s4 rv))"
    unfolding velocity_bc_eq[OF g4 d(1)] by (auto split: if_splits)
  then have "st' ru = lid_u ny nx mu" "st' rv = wall_v ny nx mv" "st' rp = p'" "st' rb = b'"
    using d r4 by auto
  with b' p' d st' show ?thesis by (simp add: mu' mv')
qed

section \<open>Runs of the time loop\<close>

lemma velocity_term_rest:
  "velocity_term (zeros 3 3) 1 1 (zeros 3 3) [[0, 0, 0], [0, 1, 0], [0, 0, 0]] 1 = Inr (zeros 3 3)"
  by (simp add: velocity_term_def velocity_rhs_def eval_defs)

lemma momentum_rest:
  "momentum_u (zeros 3 3) [[0, 0, 0], [0, 1, 0], [0, 0, 0]] [[3, 3, 3], [3, 3, 3], [0, 0, 0]] 1 1 1 1
     (zeros 3 3) = Inr (zeros 3 3)"
  "momentum_v (zeros 3 3) [[0, 0, 0], [0, 1, 0], [0, 0, 0]] [[3, 3, 3], [3, 3, 3], [0, 0, 0]] 1 1 1 1
     [[0, 0, 0], [0, 1, 0], [0, 0, 0]] = Inr [[0, 0, 0], [0, - 5 / 2, 0], [0, 0, 0]]"
  by (simp_all add: momentum_u_def momentum_v_def u_rhs_def v_rhs_def eval_defs)

lemma lid_wall_rest:
  "lid_u 3 3 (zeros 3 3) = [[0, 0, 0], [0, 0, 0], [1, 1, 1]]"
  "wall_v 3 3 [[0, 0, 0], [0, - 5 / 2, 0], [0, 0, 0]] = [[0, 0, 0], [0, - 5 / 2, 0], [0, 0, 0]]"
  by (simp_all add: lid_u_def wall_v_def const_row_def const_col_def zeros_def numeral_3_eq_3)

lemma run_step:
  "\<exists>st'. cavity_step 1 1 1 1 (3 / 10) 10 11 12 13 (cavity3(13 := zeros 3 3)) = Some (Inr st') \<and>
     st' 10 = [[0, 0, 0], [0, 0, 0], [1, 1, 1]] \<and>
     st' 11 = [[0, 0, 0], [0, - 5 / 2, 0], [0, 0, 0]] \<and>
     st' 12 = [[3, 3, 3], [3, 3, 3], [0, 0, 0]] \<and> st' 13 = zeros 3 3"
proof -
  let ?s0 = "cavity3(13 := zeros 3 3)"
  let ?v = "[[0, 0, 0], [0, 1, 0], [0, 0, 0::real]]"
  let ?p' = "[[3, 3, 3], [3, 3, 3], [0, 0, 0::real]]"
  let ?mv = "[[0, 0, 0], [0, - 5 / 2, 0], [0, 0, 0::real]]"
  have r0: "?s0 10 = zeros 3 3" "?s0 11 = ?v" "?s0 12 = [[4, 4, 4], [4, 4, 4], [0, 0, 0]]"
    "?s0 13 = zeros 3 3"
    by (simp_all add: cavity3_def)
  have vt: "velocity_term_st 13 1 1 10 11 1 ?s0 = Inr ?s0"
    unfolding velocity_term_st_def r0 velocity_term_rest by (simp add: fun_eq_iff)
  define s2 where "s2 = ?s0(12 := ?p')"
  have r2: "s2 10 = zeros 3 3" "s2 11 = ?v" "s2 12 = ?p'" by (simp_all add: s2_def cavity3_def)
  define s3 where "s3 = s2(10 := zeros 3 3)"
  have r3: "s3 11 = ?v" "s3 12 = ?p'" by (simp_all add: s3_def r2)
  define s4 where "s4 = s3(11 := ?mv)"
  have r4: "s4 10 = zeros 3 3" "s4 11 = ?mv" by (simp_all add: s4_def s3_def)
  have mu: "upd_array 10 (momentum_u (zeros 3 3) ?v ?p' 1 1 1 1) s2 = Inr s3"
    unfolding upd_array_def r2 momentum_rest s3_def by simp
  have mv: "upd_array 11 (momentum_v (zeros 3 3) ?v ?p' 1 1 1 1) s3 = Inr s4"
    unfolding upd_array_def r3 momentum_rest s4_def by simp
  have g4: "is_grid 3 3 (s4 10)" "is_grid 3 3 (s4 11)" unfolding r4 by (simp_all add: is_grid_zeros)
  have ne: "(10::nat) \<noteq> 11" by simp
  have bc: "velocity_bc 10 11 s4 =
      Inr (s4(10 := [[0, 0, 0], [0, 0, 0], [1, 1, 1]], 11 := ?mv))"
    unfolding velocity_bc_eq[OF g4 ne] r4 lid_wall_rest by simp
  have "cavity_step 1 1 1 1 (3 / 10) 10 11 12 13 ?s0 =
        Some (Inr (s4(10 := [[0, 0, 0], [0, 0, 0], [1, 1, 1]], 11 := ?mv)))"
    unfolding cavity_step_def Let_def vt sum.case r0 run_converged option.case
      s2_def[symmetric] r2 mu ebind_simps r3 mv bc
    by (rule refl)
  then show ?thesis
    by (simp add: s4_def s3_def s2_def cavity3_def)
qed

lemma cavity_loop_snoc:
  "cavity_loop (Suc k) dt dx rho nu rtol ru rv rp rb st = Some (Inr st') \<Longrightarrow>
   \<exists>s1. cavity_loop k dt dx rho nu rtol ru rv rp rb st = Some (Inr s1) \<and>
        cavity_step dt dx rho nu rtol ru rv rp rb s1 = Some (Inr st')"
proof (induction k arbitrary: st)
  case 0
  then show ?case
    by (cases "cavity_step dt dx rho nu rtol ru rv rp rb st";
        cases "the (cavity_step dt dx rho nu rtol ru rv rp rb st)")
      auto
next
  case (Suc k)
  from Suc.prems obtain s2 where s2: "cavity_step dt dx rho nu rtol ru rv rp rb st = Some (Inr s2)"
    "cavity_loop (Suc k) dt dx rho nu rtol ru rv rp rb s2 = Some (Inr st')"
    by (cases "cavity_step dt dx rho nu rtol ru rv rp rb st";
        cases "the (cavity_step dt dx rho nu rtol ru rv rp rb st)")
      auto
  from Suc.IH[OF s2(2)] s2(1) show ?case by auto
qed

lemma cavity_loop_grid:
  assumes "ru \<noteq> rv"
  shows "is_grid ny nx (st ru) \<Longrightarrow> is_grid ny nx (st rv) \<Longrightarrow>
   cavity_loop k dt dx rho nu rtol ru rv rp rb st = Some (Inr s1) \<Longrightarrow>
   is_grid ny nx (s1 ru) \<and> is_grid ny nx (s1 rv)"
proof (induction k arbitrary: st)
  case 0
  then show ?case by simp
next
  case (Suc k)
  from Suc.prems(3) obtain s2 where s2: "cavity_step dt dx rho nu rtol ru rv rp rb st = Some (Inr s2)"
    "cavity_loop k dt dx rho nu rtol ru rv rp rb s2 = Some (Inr s1)"
    by (cases "cavity_step dt dx rho nu rtol ru rv rp rb st";
        cases "the (cavity_step dt dx rho nu rtol ru rv rp rb st)") auto
  from cavity_step_bc[OF Suc.prems(1,2) assms s2(1)]
  have "is_grid ny nx (s2 ru)" "is_grid ny nx (s2 rv)"
    by (auto simp: is_grid_lid_u is_grid_wall_v)
  from Suc.IH[OF this s2(2)] show ?case .
qed

text \<open>
  C7. After every time step of \<^verbatim>\<open>cavity_flow\<close> that returns (one pass through the loop
  body from any state with rectangular \<open>u\<close> and \<open>v\<close> of one shape and a \<open>b\<close> that is an
  array of its own, and so after each of the steps 1..nt of a run), the velocities on
  the four edges are the forced ones: \<open>u\<close> is 1 at every point of the lid row and 0 at
  every other point of row 0, of the left column and of the right column; \<open>v\<close> is 0 on
  all four edges. \<open>u\<close> and \<open>v\<close> are two array objects: bound to one array, the later
  assignments through \<open>v\<close> would overwrite the lid. The pressure \<open>p\<close> may be any array.
\<close>

theorem velocity_boundary:
  assumes "is_grid ny nx (st ru)" "is_grid ny nx (st rv)" "ru \<noteq> rv"
  shows "(\<forall>st'. rb \<noteq> ru \<and> rb \<noteq> rv \<and> rb \<noteq> rp \<and>
              cavity_step dt dx rho nu rtol ru rv rp rb st = Some (Inr st') \<longrightarrow>
            (\<forall>i j. i < ny \<and> j < nx \<longrightarrow>
               (i = ny - 1 \<longrightarrow> st' ru ! i ! j = 1) \<and>
               (i \<noteq> ny - 1 \<and> (i = 0 \<or> j = 0 \<or> j = nx - 1) \<longrightarrow> st' ru ! i ! j = 0) \<and>
               (i = 0 \<or> i = ny - 1 \<or> j = 0 \<or> j = nx - 1 \<longrightarrow> st' rv ! i ! j = 0))) \<and>
         (\<forall>k st'. cavity_flow (Suc k) ru rv dt dx rp rho nu rtol st = Some (Inr st') \<longrightarrow>
            (\<forall>i j. i < ny \<and> j < nx \<longrightarrow>
               (i = ny - 1 \<longrightarrow> st' ru ! i ! j = 1) \<and>
               (i \<noteq> ny - 1 \<and> (i = 0 \<or> j = 0 \<or> j = nx - 1) \<longrightarrow> st' ru ! i ! j = 0) \<and>
               (i = 0 \<or> i = ny - 1 \<or> j = 0 \<or> j = nx - 1 \<longrightarrow> st' rv ! i ! j = 0)))"
proof -
  have step: "(i = ny - 1 \<longrightarrow> st' ru ! i ! j = 1) \<and>
      (i \<noteq> ny - 1 \<and> (i = 0 \<or> j = 0 \<or> j = nx - 1) \<longrightarrow> st' ru ! i ! j = 0) \<and>
      (i = 0 \<or> i = ny - 1 \<or> j = 0 \<or> j = nx - 1 \<longrightarrow> st' rv ! i ! j = 0)"
    if "is_grid ny nx (s0 ru)" "is_grid ny nx (s0 rv)"
      "cavity_step dt dx rho nu rtol ru rv rp rb' s0 = Some (Inr st')"
      "i < ny \<and> j < nx"
    for s0 rb' st' i j
  proof -
    from that(4) have ij: "i < ny" "j < nx" by simp_all
    from cavity_step_bc[OF that(1,2) assms(3) that(3)] obtain mu mv where
      m: "is_grid ny nx mu" "is_grid ny nx mv" "st' ru = lid_u ny nx mu" "st' rv = wall_v ny nx mv"
      by blast
    note sb = nth_lid_u[OF m(1) ij] nth_wall_v[OF m(2) ij]
    have "i = ny - 1 \<longrightarrow> st' ru ! i ! j = 1" unfolding m(3) sb(1) by simp
    moreover have "i \<noteq> ny - 1 \<and> (i = 0 \<or> j = 0 \<or> j = nx - 1) \<longrightarrow> st' ru ! i ! j = 0"
      unfolding m(3) sb(1) by auto
    moreover have "i = 0 \<or> i = ny - 1 \<or> j = 0 \<or> j = nx - 1 \<longrightarrow> st' rv ! i ! j = 0"
      unfolding m(4) sb(2) by auto
    ultimately show ?thesis by blast
  qed
  have flow: "(i = ny - 1 \<longrightarrow> st' ru ! i ! j = 1) \<and>
      (i \<noteq> ny - 1 \<and> (i = 0 \<or> j = 0 \<or> j = nx - 1) \<longrightarrow> st' ru ! i ! j = 0) \<and>
      (i = 0 \<or> i = ny - 1 \<or> j = 0 \<or> j = nx - 1 \<longrightarrow> st' rv ! i ! j = 0)"
    if run: "cavity_flow (Suc k) ru rv dt dx rp rho nu rtol st = Some (Inr st')"
      and ij: "i < ny \<and> j < nx"
    for k st' i j
  proof -
    define rb' where "rb' = Suc (max ru (max rv rp))"
    define s0 where "s0 = st(rb' := zeros (length (st ru)) (ncols (st ru)))"
    have d: "rb' \<noteq> ru" "rb' \<noteq> rv" by (simp_all add: rb'_def)
    from run have "cavity_loop (Suc k) dt dx rho nu rtol ru rv rp rb' s0 = Some (Inr st')"
      by (simp add: cavity_flow_def Let_def rb'_def s0_def)
    from cavity_loop_snoc[OF this] obtain s1 where
      s1: "cavity_loop k dt dx rho nu rtol ru rv rp rb' s0 = Some (Inr s1)"
      "cavity_step dt dx rho nu rtol ru rv rp rb' s1 = Some (Inr st')"
      by blast
    have g0: "is_grid ny nx (s0 ru)" "is_grid ny nx (s0 rv)"
      using assms(1,2) d by (simp_all add: s0_def)
    from cavity_loop_grid[OF assms(3) g0 s1(1)] have "is_grid ny nx (s1 ru)" "is_grid ny nx (s1 rv)"
      by simp_all
    from step[OF this s1(2) ij] show ?thesis .
  qed
  from step[OF assms(1,2)] flow show ?thesis by blast
qed

lemma run_flow:
  "\<exists>st'. cavity_flow 1 10 11 1 1 12 1 1 (3 / 10) cavity3 = Some (Inr st') \<and>
     st' 10 = [[0, 0, 0], [0, 0, 0], [1, 1, 1]] \<and>
     st' 11 = [[0, 0, 0], [0, - 5 / 2, 0], [0, 0, 0]] \<and>
     st' 12 = [[3, 3, 3], [3, 3, 3], [0, 0, 0]]"
proof -
  have z: "zeros (length (cavity3 10)) (ncols (cavity3 10)) = zeros 3 3"
    by (simp add: cavity3_def zeros_def ncols_def numeral_3_eq_3)
  have r: "Suc (max 10 (max 11 12)) = (13::nat)" by simp
  from run_step obtain st' where
    st': "cavity_step 1 1 1 1 (3 / 10) 10 11 12 13 (cavity3(13 := zeros 3 3)) = Some (Inr st')"
    "st' 10 = [[0, 0, 0], [0, 0, 0], [1, 1, 1]]" "st' 11 = [[0, 0, 0], [0, - 5 / 2, 0], [0, 0, 0]]"
    "st' 12 = [[3, 3, 3], [3, 3, 3], [0, 0, 0]]"
    by blast
  have "cavity_flow 1 10 11 1 1 12 1 1 (3 / 10) cavity3 = Some (Inr st')"
    unfolding cavity_flow_def Let_def z r One_nat_def cavity_loop.simps st'(1) by simp
  with st'(2-) show ?thesis by blast
qed

text \<open>
  With \<open>u\<close> and \<open>v\<close> bound to one array the boundary assignments leave that array zero on
  the lid as well: \<^verbatim>\<open>v[-1, :] = 0\<close> comes last.
\<close>

lemma velocity_bc_aliased:
  "\<exists>st'. velocity_bc 10 10 cavity3 = Inr st' \<and> st' 10 = zeros 3 3"
  by (simp add: velocity_bc_def upd_array_def cavity3_def eval_defs)

text \<open>Witness of C7: one time step, and a run of one step, on a 3 by 3 grid.\<close>

theorem velocity_boundary_witness:
  "(\<exists>st'. cavity_step 1 1 1 1 (3 / 10) 10 11 12 13 (cavity3(13 := zeros 3 3)) = Some (Inr st') \<and>
     st' 10 ! 2 ! 0 = 1 \<and> st' 10 ! 2 ! 1 = 1 \<and> st' 10 ! 0 ! 1 = 0 \<and> st' 10 ! 1 ! 0 = 0 \<and>
     st' 10 ! 1 ! 2 = 0 \<and> st' 11 ! 2 ! 1 = 0 \<and> st' 11 ! 1 ! 0 = 0) \<and>
   (\<exists>st'. cavity_flow 1 10 11 1 1 12 1 1 (3 / 10) cavity3 = Some (Inr st') \<and>
     st' 10 ! 2 ! 2 = 1 \<and> st' 10 ! 0 ! 0 = 0 \<and> st' 11 ! 2 ! 2 = 0)"
proof -
  have g: "is_grid 3 3 (cavity3 10)" "is_grid 3 3 (cavity3 11)"
    "is_grid 3 3 ((cavity3(13 := zeros 3 3)) 10)" "is_grid 3 3 ((cavity3(13 := zeros 3 3)) 11)"
    by (simp_all add: cavity3_def is_grid_zeros)
  have ne: "(10::nat) \<noteq> 11" by simp
  from run_step obtain s1 where
    s1: "cavity_step 1 1 1 1 (3 / 10) 10 11 12 13 (cavity3(13 := zeros 3 3)) = Some (Inr s1)"
    by blast
  from run_flow obtain s2 where
    s2: "cavity_flow 1 10 11 1 1 12 1 1 (3 / 10) cavity3 = Some (Inr s2)"
    by blast
  have h: "(13::nat) \<noteq> 10 \<and> (13::nat) \<noteq> 11 \<and> (13::nat) \<noteq> 12 \<and>
      cavity_step 1 1 1 1 (3 / 10) 10 11 12 13 (cavity3(13 := zeros 3 3)) = Some (Inr s1)"
    using s1 by simp
  note sc = velocity_boundary[OF g(3,4) ne, THEN conjunct1, rule_format, OF h]
  note fc = velocity_boundary[OF g(1,2) ne, THEN conjunct2, rule_format,
      OF s2[unfolded One_nat_def]]
  have "s1 10 ! 2 ! 0 = 1" "s1 10 ! 2 ! 1 = 1" "s1 10 ! 0 ! 1 = 0" "s1 10 ! 1 ! 0 = 0" "s1 10 ! 1 ! 2 = 0"
    "s1 11 ! 2 ! 1 = 0" "s1 11 ! 1 ! 0 = 0"
    using sc[of 2 0] sc[of 2 1] sc[of 0 1] sc[of 1 0] sc[of 1 2]
    by simp_all
  moreover have "s2 10 ! 2 ! 2 = 1" "s2 10 ! 0 ! 0 = 0" "s2 11 ! 2 ! 2 = 0"
    using fc[of 2 2] fc[of 0 0] by simp_all
  ultimately show ?thesis using s1 s2 by blast
qed

text \<open>
  Counterexample to C6: in a time step on a 3 by 3 grid with \<open>u = 0\<close> and \<open>v = 1\<close> at the
  interior cell, the code sets the interior \<open>v\<close> to \<open>-5/2\<close>; with \<open>u\<close> advecting both
  derivative terms it would be \<open>-3/2\<close>.
\<close>

theorem v_advection_counterexample:
  "\<exists>st'. cavity_step 1 1 1 1 (3 / 10) 10 11 12 13 (cavity3(13 := zeros 3 3)) = Some (Inr st') \<and>
     st' 11 ! 1 ! 1 = - 5 / 2 \<and>
     v_cell (cavity3 10) (cavity3 11) (st' 12) 1 1 1 1 (cavity3 10 ! 1 ! 1) 1 1 = - 3 / 2"
proof -
  from run_step obtain st' where
    st': "cavity_step 1 1 1 1 (3 / 10) 10 11 12 13 (cavity3(13 := zeros 3 3)) = Some (Inr st')"
    "st' 11 = [[0, 0, 0], [0, - 5 / 2, 0], [0, 0, 0]]" "st' 12 = [[3, 3, 3], [3, 3, 3], [0, 0, 0]]"
    by blast
  have "v_cell (cavity3 10) (cavity3 11) (st' 12) 1 1 1 1 (cavity3 10 ! 1 ! 1) 1 1 = - 3 / 2"
    unfolding st'(3) by (simp add: v_cell_def cavity3_def zeros_def numeral_3_eq_3)
  with st'(1,2) show ?thesis by auto
qed

text \<open>
  C6, amended. In a time step of \<^verbatim>\<open>cavity_flow\<close> that returns, on grids \<open>u\<close>, \<open>v\<close>, \<open>p\<close> of
  one shape (\<open>u\<close>, \<open>v\<close>, \<open>p\<close> and \<open>b\<close> four array objects), every interior cell of the new
  \<open>v\<close> is the momentum update in which the previous \<open>u\<close> advects the x-derivative term
  \<open>v[i,j] - v[i,j-1]\<close> and the previous \<open>v\<close> advects the y-derivative term
  \<open>v[i,j] - v[i-1,j]\<close>, with the pressure just computed.
\<close>

theorem v_update_advection:
  assumes "is_grid ny nx (st ru)" "is_grid ny nx (st rv)" "is_grid ny nx (st rp)"
    and "distinct [ru, rv, rp, rb]"
    and "cavity_step dt dx rho nu rtol ru rv rp rb st = Some (Inr st')"
  shows "\<forall>i j. interior ny nx i j \<longrightarrow>
           st' rv ! i ! j = v_cell (st ru) (st rv) (st' rp) dt dx rho nu (st rv ! i ! j) i j"
proof (intro allI impI)
  fix i j assume int: "interior ny nx i j"
  then have ij: "i < ny" "j < nx" "\<not> (i = ny - 1 \<or> i = 0 \<or> j = 0 \<or> j = nx - 1)"
    "1 \<le> i \<and> i < ny - 1 \<and> 1 \<le> j \<and> j < nx - 1" "i - 1 < ny - 2" "j - 1 < nx - 2"
    "i - 1 + 1 = i" "j - 1 + 1 = j"
    by (auto simp: interior_def)
  let ?p' = "st' rp"
  let ?mv = "assign_slice2 sl_inner sl_inner (st rv) (v_rhs (st ru) (st rv) ?p' dt dx rho nu)"
  from cavity_step_distinct[OF assms(1,2,4,5)] have
    pp: "pressure_poisson (st rp) (st' rb) rtol = Some (Inr ?p')" and
    v': "st' rv = wall_v ny nx ?mv"
    by simp_all
  have gp': "is_grid ny nx ?p'" using assms(3) pp by (rule is_grid_pressure_poisson)
  have gmv: "is_grid ny nx ?mv" using assms(2) by (rule is_grid_assign_slice2)
  have "st' rv ! i ! j = ?mv ! i ! j"
    unfolding v' nth_wall_v[OF gmv ij(1,2)] using ij(3) by (rule if_not_P)
  also have "\<dots> = v_rhs (st ru) (st rv) ?p' dt dx rho nu ! (i - 1) ! (j - 1)"
    unfolding nth_assign_inner[OF assms(2) ij(1,2)] using ij(4) by (rule if_P)
  also have "\<dots> = v_cell (st ru) (st rv) ?p' dt dx rho nu (st rv ! i ! j) i j"
    unfolding nth_v_rhs[OF assms(1,2) gp' ij(5,6)] ij(7,8) by (rule refl)
  finally show "st' rv ! i ! j = v_cell (st ru) (st rv) ?p' dt dx rho nu (st rv ! i ! j) i j" .
qed

text \<open>Witness of C6: the time step of the counterexample.\<close>

theorem v_update_advection_witness:
  "\<exists>st'. cavity_step 1 1 1 1 (3 / 10) 10 11 12 13 (cavity3(13 := zeros 3 3)) = Some (Inr st') \<and>
     st' 11 ! 1 ! 1 = v_cell (cavity3 10) (cavity3 11) (st' 12) 1 1 1 1 (cavity3 11 ! 1 ! 1) 1 1 \<and>
     v_cell (cavity3 10) (cavity3 11) (st' 12) 1 1 1 1 (cavity3 11 ! 1 ! 1) 1 1 = - 5 / 2"
proof -
  let ?s0 = "cavity3(13 := zeros 3 3)"
  have g: "is_grid 3 3 (?s0 10)" "is_grid 3 3 (?s0 11)" "is_grid 3 3 (?s0 12)"
    by (simp_all add: cavity3_def is_grid_zeros)
  have d: "distinct [10, 11, 12, 13::nat]" by simp
  have i: "interior 3 3 1 1" by (simp add: interior_def)
  from run_step obtain st' where
    st': "cavity_step 1 1 1 1 (3 / 10) 10 11 12 13 ?s0 = Some (Inr st')"
    "st' 11 = [[0, 0, 0], [0, - 5 / 2, 0], [0, 0, 0]]"
    by blast
  from v_update_advection[OF g d st'(1)] i
  have "st' 11 ! 1 ! 1 = v_cell (?s0 10) (?s0 11) (st' 12) 1 1 1 1 (?s0 11 ! 1 ! 1) 1 1"
    by blast
  then have e: "st' 11 ! 1 ! 1 = v_cell (cavity3 10) (cavity3 11) (st' 12) 1 1 1 1 (cavity3 11 ! 1 ! 1) 1 1"
    by simp
  moreover from e have "v_cell (cavity3 10) (cavity3 11) (st' 12) 1 1 1 1 (cavity3 11 ! 1 ! 1) 1 1 = - 5 / 2"
    by (simp add: st'(2))
  ultimately show ?thesis using st'(1) by blast
qed

end
